theory Spec2Isabelle
  imports Main "HOL-Library.Sublist"
begin

section \<open>The user router (src/app/routers/user.js)\<close>

subsection \<open>Requests\<close>

datatype http_method = GET | HEAD | POST | PUT | PATCH | DELETE | OPTIONS

text \<open>
  A request, as far as the router reads it: the verb and the pathname (the URL without its
  query string, not percent-decoded).
\<close>

record request =
  req_method :: http_method
  req_path :: string

subsection \<open>The functions the router wires together\<close>

text \<open>
  The router imports its middlewares and controllers from \<^verbatim>\<open>../middlewares\<close> and
  \<^verbatim>\<open>../controllers\<close> and only refers to them by name. Each constructor is one of
  these names, \<^verbatim>\<open>userMiddleware.checkIfExists\<close> written
  \<open>userMiddleware_checkIfExists\<close> and so on.
\<close>

datatype handler =
    userMiddleware_checkIfExists
  | userMiddleware_checkPermissions
  | rateLimit_updateProfile
  | rateLimit_updatePassword
  | rateLimit_updateUsername
  | rateLimit_updateAvatar
  | userController_getInformations
  | userController_update
  | userController_updatePassword
  | userController_updateUsername
  | userController_updateAvatar
  | userController_delete
  | searchController_searchUserByName
  | followController_follow
  | followController_unfollow

fun is_rate_limit :: "handler \<Rightarrow> bool" where
  "is_rate_limit rateLimit_updateProfile = True"
| "is_rate_limit rateLimit_updatePassword = True"
| "is_rate_limit rateLimit_updateUsername = True"
| "is_rate_limit rateLimit_updateAvatar = True"
| "is_rate_limit _ = False"

subsection \<open>Route paths\<close>

text \<open>
  A route path of this router is a sequence of segments, each written after a slash:
  a fixed word (\<^verbatim>\<open>/update\<close>) or a named parameter restricted to the pattern
  \<^verbatim>\<open>\d+\<close> (\<^verbatim>\<open>/:id(\\d+)\<close> in the JavaScript string).
\<close>

datatype segment = Literal string | Digits string

definition is_digit :: "char \<Rightarrow> bool" where
  "is_digit c = (c \<in> set ''0123456789'')"

text \<open>
  Express turns the path string of a route into a regular expression that has to match the
  whole pathname; for \<^verbatim>\<open>/:id(\\d+)/update\<close> it is
  \<^verbatim>\<open>^\/(?:(\d+))\/update\/?$\<close> with the flag \<^verbatim>\<open>i\<close>. The router is created
  by \<^verbatim>\<open>express.Router()\<close> with no options, hence the flag (letters are compared
  without regard to case) and the optional slash at the end.
\<close>

definition to_lower :: "char \<Rightarrow> char" where
  "to_lower c =
     (case map_of (zip ''ABCDEFGHIJKLMNOPQRSTUVWXYZ'' ''abcdefghijklmnopqrstuvwxyz'') c of
        Some l \<Rightarrow> l
      | None \<Rightarrow> c)"

text \<open>\<open>strip_ci l s\<close> removes the text \<open>l\<close> from the front of \<open>s\<close>, ignoring case.\<close>

fun strip_ci :: "string \<Rightarrow> string \<Rightarrow> string option" where
  "strip_ci [] s = Some s"
| "strip_ci (c # cs) [] = None"
| "strip_ci (c # cs) (x # xs) = (if to_lower x = to_lower c then strip_ci cs xs else None)"

text \<open>
  \<open>match_path ps s\<close>: the whole of \<open>s\<close> is an instance of the route path \<open>ps\<close>.
  A \<^verbatim>\<open>\d+\<close> parameter may take any non-empty run of digits that lets the rest
  of the path match; at the end an optional slash is allowed.
\<close>

fun match_path :: "segment list \<Rightarrow> string \<Rightarrow> bool" where
  "match_path [] s = (s = [] \<or> s = ''/'')"
| "match_path (Literal l # ps) s =
     (case strip_ci (CHR ''/'' # l) s of
        None \<Rightarrow> False
      | Some r \<Rightarrow> match_path ps r)"
| "match_path (Digits name # ps) s =
     (case s of
        [] \<Rightarrow> False
      | c # cs \<Rightarrow>
          c = CHR ''/'' \<and>
          list_ex (\<lambda>k. match_path ps (drop k cs))
            [1 ..< Suc (length (takeWhile is_digit cs))])"

subsection \<open>The route table\<close>

record route =
  route_verb :: http_method
  route_path :: "segment list"
  route_stack :: "handler list"

text \<open>The nine routes, in the order the source registers them.\<close>

definition get_user :: route where
  "get_user =
     \<lparr>route_verb = GET, route_path = [Digits ''id''],
      route_stack = [userMiddleware_checkIfExists, userController_getInformations]\<rparr>"

definition get_search :: route where
  "get_search =
     \<lparr>route_verb = GET, route_path = [Literal ''search''],
      route_stack = [searchController_searchUserByName]\<rparr>"

definition patch_update :: route where
  "patch_update =
     \<lparr>route_verb = PATCH, route_path = [Digits ''id'', Literal ''update''],
      route_stack = [rateLimit_updateProfile, userMiddleware_checkPermissions,
                     userMiddleware_checkIfExists, userController_update]\<rparr>"

definition patch_update_password :: route where
  "patch_update_password =
     \<lparr>route_verb = PATCH,
      route_path = [Digits ''id'', Literal ''update'', Literal ''password''],
      route_stack = [rateLimit_updatePassword, userMiddleware_checkPermissions,
                     userMiddleware_checkIfExists, userController_updatePassword]\<rparr>"

definition patch_update_username :: route where
  "patch_update_username =
     \<lparr>route_verb = PATCH,
      route_path = [Digits ''id'', Literal ''update'', Literal ''username''],
      route_stack = [rateLimit_updateUsername, userMiddleware_checkPermissions,
                     userMiddleware_checkIfExists, userController_updateUsername]\<rparr>"

definition put_update_avatar :: route where
  "put_update_avatar =
     \<lparr>route_verb = PUT,
      route_path = [Digits ''id'', Literal ''update'', Literal ''avatar''],
      route_stack = [rateLimit_updateAvatar, userMiddleware_checkPermissions,
                     userMiddleware_checkIfExists, userController_updateAvatar]\<rparr>"

definition delete_user :: route where
  "delete_user =
     \<lparr>route_verb = DELETE, route_path = [Digits ''id'', Literal ''delete''],
      route_stack = [userMiddleware_checkPermissions, userMiddleware_checkIfExists,
                     userController_delete]\<rparr>"

definition post_follow :: route where
  "post_follow =
     \<lparr>route_verb = POST,
      route_path = [Digits ''id'', Literal ''follow'', Digits ''toFollowId''],
      route_stack = [userMiddleware_checkPermissions, userMiddleware_checkIfExists,
                     followController_follow]\<rparr>"

definition delete_unfollow :: route where
  "delete_unfollow =
     \<lparr>route_verb = DELETE,
      route_path = [Digits ''id'', Literal ''unfollow'', Digits ''toUnfollowId''],
      route_stack = [userMiddleware_checkPermissions, userMiddleware_checkIfExists,
                     followController_unfollow]\<rparr>"

definition router :: "route list" where
  "router =
     [get_user, get_search, patch_update, patch_update_password, patch_update_username,
      put_update_avatar, delete_user, post_follow, delete_unfollow]"

subsection \<open>Dispatch\<close>

text \<open>A route registered for GET also serves HEAD, since no route here registers HEAD.\<close>

definition handles_method :: "route \<Rightarrow> http_method \<Rightarrow> bool" where
  "handles_method rt m = (m = route_verb rt \<or> (m = HEAD \<and> route_verb rt = GET))"

definition route_matches :: "route \<Rightarrow> request \<Rightarrow> bool" where
  "route_matches rt req =
     (match_path (route_path rt) (req_path req) \<and> handles_method rt (req_method req))"

text \<open>The first route of the table that takes the request, if any.\<close>

definition dispatch :: "request \<Rightarrow> route option" where
  "dispatch req = find (\<lambda>rt. route_matches rt req) router"

subsection \<open>Running a route's stack\<close>

record response =
  status :: nat
  body :: string

text \<open>
  Modelled from the spec: the bodies of the middlewares and controllers are not part of the
  router file. Following sections 2, 7 and 9 of the specification, a handler either passes
  control on (\<open>Next\<close>, the call \<^verbatim>\<open>next()\<close>) or answers the request itself
  (\<open>Respond\<close>), which ends the chain. What a handler decides, and what it does to the
  world (database, rate-limit counters) of type \<open>'s\<close>, is a parameter.
\<close>

datatype outcome = Next | Respond response

type_synonym 's behaviour = "handler \<Rightarrow> request \<Rightarrow> 's \<Rightarrow> outcome \<times> 's"

record 's run =
  executed :: "handler list"
  reply :: "response option"
  world :: 's

text \<open>
  Modelled from the spec: the interpreter loop of section 9, an ordered list of handlers
  run one after the other until one answers. \<open>executed\<close> lists the handlers that ran,
  in order.
\<close>

fun run_stack :: "'s behaviour \<Rightarrow> request \<Rightarrow> handler list \<Rightarrow> 's \<Rightarrow> 's run" where
  "run_stack b req [] s = \<lparr>executed = [], reply = None, world = s\<rparr>"
| "run_stack b req (h # hs) s =
     (case b h req s of
        (Respond r, s') \<Rightarrow> \<lparr>executed = [h], reply = Some r, world = s'\<rparr>
      | (Next, s') \<Rightarrow>
          (let r = run_stack b req hs s' in r\<lparr>executed := h # executed r\<rparr>))"

text \<open>
  The router tries its routes in order. A route whose handlers all passed control on hands
  the request to the routes after it; a request that no handler answered leaves the table
  with \<open>reply = None\<close> (for the caller a 404, unless something other than these
  handlers answers, as Express itself does for OPTIONS).
\<close>

fun handle_from :: "'s behaviour \<Rightarrow> request \<Rightarrow> route list \<Rightarrow> 's \<Rightarrow> 's run" where
  "handle_from b req [] s = \<lparr>executed = [], reply = None, world = s\<rparr>"
| "handle_from b req (rt # rts) s =
     (if route_matches rt req then
        (let r = run_stack b req (route_stack rt) s in
         case reply r of
           Some _ \<Rightarrow> r
         | None \<Rightarrow>
             (let r' = handle_from b req rts (world r)
              in r'\<lparr>executed := executed r @ executed r'\<rparr>))
      else handle_from b req rts s)"

definition handle :: "'s behaviour \<Rightarrow> request \<Rightarrow> 's \<Rightarrow> 's run" where
  "handle b req s = handle_from b req router s"

subsection \<open>Vocabulary of the properties\<close>

text \<open>A non-empty sequence of decimal digits.\<close>

definition numeric :: "string \<Rightarrow> bool" where
  "numeric s = (s \<noteq> [] \<and> list_all is_digit s)"

text \<open>\<open>all_pass b req hs s\<close>: run from \<open>s\<close>, each handler of \<open>hs\<close> passes control on.\<close>

fun all_pass :: "'s behaviour \<Rightarrow> request \<Rightarrow> handler list \<Rightarrow> 's \<Rightarrow> bool" where
  "all_pass b req [] s = True"
| "all_pass b req (h # hs) s =
     (case b h req s of
        (Next, s') \<Rightarrow> all_pass b req hs s'
      | (Respond r, s') \<Rightarrow> False)"

text \<open>
  \<open>runs_in_order r chain\<close>: the handlers that ran are the first \<open>k\<close> of the chain, in
  the chain's order, for some \<open>k \<ge> 1\<close>.
\<close>

definition runs_in_order :: "'s run \<Rightarrow> handler list \<Rightarrow> bool" where
  "runs_in_order r chain = (executed r \<noteq> [] \<and> prefix (executed r) chain)"

subsection \<open>Two sample behaviours\<close>

text \<open>Every middleware passes and every controller answers 200.\<close>

definition ok_response :: response where
  "ok_response = \<lparr>status = 200, body = ''{}''\<rparr>"

definition forbidden_response :: response where
  "forbidden_response = \<lparr>status = 403, body = ''Forbidden''\<rparr>"

definition is_middleware :: "handler \<Rightarrow> bool" where
  "is_middleware h =
     (is_rate_limit h \<or> h = userMiddleware_checkPermissions \<or> h = userMiddleware_checkIfExists)"

definition permissive :: "unit behaviour" where
  "permissive h req s = (if is_middleware h then (Next, s) else (Respond ok_response, s))"

text \<open>As \<open>permissive\<close>, but the permission check rejects with 403.\<close>

definition forbidding :: "unit behaviour" where
  "forbidding h req s =
     (if h = userMiddleware_checkPermissions then (Respond forbidden_response, s)
      else permissive h req s)"

section \<open>The date helpers (src/app/utils/date.js)\<close>

text \<open>
  \<^verbatim>\<open>format\<close> calls three functions of the dayjs library, which is not part of the
  repository: \<^verbatim>\<open>dayjs(date)\<close> wraps a date, \<^verbatim>\<open>.locale(language)\<close> selects a
  locale and \<^verbatim>\<open>.format(pattern)\<close> renders. They are parameters here, over any
  type \<open>'d\<close> of date inputs, any type \<open>'i\<close> of values that the first two calls
  return and any type \<open>'r\<close> of results of the third.
\<close>

record ('d, 'i, 'r) dayjs_api =
  dayjs_make :: "'d \<Rightarrow> 'i"
  dayjs_locale :: "'i \<Rightarrow> string \<Rightarrow> 'i"
  dayjs_format :: "'i \<Rightarrow> string \<Rightarrow> 'r"

text \<open>
  The two patterns of the source. Characters are given by their code point; the accented
  letter of the French pattern is U+00E0.
\<close>

definition a_grave :: char where
  "a_grave = CHR 0xE0"

definition fr_pattern :: string where
  "fr_pattern = ''dddd DD MMMM YYYY '' @ [a_grave] @ '' HH:mm''"

definition default_pattern :: string where
  "default_pattern = ''dddd DD MMMM YYYY, hh:mm A''"

definition format :: "('d, 'i, 'r) dayjs_api \<Rightarrow> 'd \<Rightarrow> string \<Rightarrow> 'r" where
  "format lib date language =
     (if language = ''fr'' then
        dayjs_format lib (dayjs_locale lib (dayjs_make lib date) language) fr_pattern
      else
        dayjs_format lib (dayjs_locale lib (dayjs_make lib date) language) default_pattern)"

text \<open>
  \<^verbatim>\<open>getDate\<close> is \<^verbatim>\<open>Date.now()\<close>, a read of the system clock. Its value is
  decided by the clock of the machine and by nothing in the program, so it has no
  definition here.
\<close>

text \<open>
  A stand-in for the library that shows what it was called with: the object is the date
  with the locale it was given, and rendering writes the locale, a bar and the pattern.
\<close>

definition recorder :: "(nat, nat \<times> string, string) dayjs_api" where
  "recorder =
     \<lparr>dayjs_make = (\<lambda>d. (d, ''en'')),
      dayjs_locale = (\<lambda>i l. (fst i, l)),
      dayjs_format = (\<lambda>i p. snd i @ ''|'' @ p)\<rparr>"

subsection \<open>The dayjs library, as far as \<^verbatim>\<open>format\<close> reaches it\<close>

text \<open>
  dayjs is not part of the repository. What follows is its behaviour on the three calls
  of \<^verbatim>\<open>format\<close>, after section 4.2 of the specification (full weekday, two-digit
  day, full month, four-digit year and the time; an invalid date is rendered as
  "Invalid Date"; a locale code that is not found changes nothing) and after the
  library's documentation of its format tokens and of \<^verbatim>\<open>.locale\<close>.

  A wrapped date is either invalid or a moment of local time, with the fields dayjs reads
  from the JavaScript date.
\<close>

datatype weekday = Sunday | Monday | Tuesday | Wednesday | Thursday | Friday | Saturday

datatype month =
    January | February | March | April | May | June
  | July | August | September | October | November | December

record moment =
  year :: int
  month :: month
  day :: nat
  weekday :: weekday
  hour :: nat
  minute :: nat

datatype date_input = Invalid_Date | Local_Time moment

text \<open>
  The locales that exist once \<^verbatim>\<open>date.js\<close> is loaded: English, which is built in, and
  French, which line 2 of the source loads. Neither has a meridiem of its own, so both
  use the library's AM and PM. The accented letters are U+00E9 and U+00FB.
\<close>

datatype locale_pack = En | Fr

fun locale_name :: "locale_pack \<Rightarrow> string" where
  "locale_name En = ''en''"
| "locale_name Fr = ''fr''"

fun weekdays :: "locale_pack \<Rightarrow> weekday \<Rightarrow> string" where
  "weekdays En Sunday = ''Sunday''"
| "weekdays En Monday = ''Monday''"
| "weekdays En Tuesday = ''Tuesday''"
| "weekdays En Wednesday = ''Wednesday''"
| "weekdays En Thursday = ''Thursday''"
| "weekdays En Friday = ''Friday''"
| "weekdays En Saturday = ''Saturday''"
| "weekdays Fr Sunday = ''dimanche''"
| "weekdays Fr Monday = ''lundi''"
| "weekdays Fr Tuesday = ''mardi''"
| "weekdays Fr Wednesday = ''mercredi''"
| "weekdays Fr Thursday = ''jeudi''"
| "weekdays Fr Friday = ''vendredi''"
| "weekdays Fr Saturday = ''samedi''"

fun months :: "locale_pack \<Rightarrow> month \<Rightarrow> string" where
  "months En January = ''January''"
| "months En February = ''February''"
| "months En March = ''March''"
| "months En April = ''April''"
| "months En May = ''May''"
| "months En June = ''June''"
| "months En July = ''July''"
| "months En August = ''August''"
| "months En September = ''September''"
| "months En October = ''October''"
| "months En November = ''November''"
| "months En December = ''December''"
| "months Fr January = ''janvier''"
| "months Fr February = ''f'' @ [CHR 0xE9] @ ''vrier''"
| "months Fr March = ''mars''"
| "months Fr April = ''avril''"
| "months Fr May = ''mai''"
| "months Fr June = ''juin''"
| "months Fr July = ''juillet''"
| "months Fr August = ''ao'' @ [CHR 0xFB] @ ''t''"
| "months Fr September = ''septembre''"
| "months Fr October = ''octobre''"
| "months Fr November = ''novembre''"
| "months Fr December = ''d'' @ [CHR 0xE9] @ ''cembre''"

text \<open>Numbers in decimal, and padding on the left with zeros up to a length.\<close>

definition digit_char :: "nat \<Rightarrow> char" where
  "digit_char n = ''0123456789'' ! (n mod 10)"

function show_nat :: "nat \<Rightarrow> string" where
  "show_nat n = (if n < 10 then [digit_char n] else show_nat (n div 10) @ [digit_char n])"
  by pat_completeness auto
termination
  by (relation "measure id") auto

declare show_nat.simps [simp del]

definition show_int :: "int \<Rightarrow> string" where
  "show_int i = (if i < 0 then CHR ''-'' # show_nat (nat (- i)) else show_nat (nat i))"

definition pad_start :: "nat \<Rightarrow> string \<Rightarrow> string" where
  "pad_start k s = replicate (k - length s) (CHR ''0'') @ s"

text \<open>
  A pattern is read from left to right. At each place the library takes a text in square
  brackets, or else the longest run it knows of one of its letters (up to four of Y, M and
  d, up to two of D, H, h, m, s and Z, one a or A, exactly three S), or else the single
  character, which then stands for itself.
\<close>

datatype token = Escaped string | Letters char nat | Plain char

definition max_run :: "char \<Rightarrow> nat" where
  "max_run c =
     (if c \<in> set ''YMd'' then 4 else if c \<in> set ''DHhmsZ'' then 2
      else if c \<in> set ''aA'' then 1 else 0)"

fun tokenize :: "string \<Rightarrow> token list" where
  "tokenize [] = []"
| "tokenize (c # cs) =
     (let body = takeWhile (\<lambda>x. x \<noteq> CHR '']'') cs;
          run = min (max_run c) (Suc (length (takeWhile (\<lambda>x. x = c) cs)))
      in if c = CHR ''['' \<and> body \<noteq> [] \<and> length body < length cs then
           Escaped body # tokenize (drop (Suc (length body)) cs)
         else if 0 < max_run c then Letters c run # tokenize (drop (run - 1) cs)
         else if c = CHR ''S'' \<and> take 2 cs = ''SS'' then Letters c 3 # tokenize (drop 2 cs)
         else Plain c # tokenize cs)"

definition hour12 :: "nat \<Rightarrow> nat" where
  "hour12 h = (if h mod 12 = 0 then 12 else h mod 12)"

definition meridiem :: "nat \<Rightarrow> string" where
  "meridiem h = (if h < 12 then ''AM'' else ''PM'')"

text \<open>
  What is left open: which locale the library finds for a code (\<open>None\<close> when it finds
  none), the locale a new object starts with, and the fields that the two patterns of
  \<^verbatim>\<open>format\<close> do not use.
\<close>

record dayjs_env =
  resolve :: "string \<Rightarrow> locale_pack option"
  global_locale :: locale_pack
  other_field :: "char \<Rightarrow> nat \<Rightarrow> string"

fun render_token :: "dayjs_env \<Rightarrow> locale_pack \<Rightarrow> moment \<Rightarrow> token \<Rightarrow> string" where
  "render_token env l t (Escaped b) = b"
| "render_token env l t (Plain c) = [c]"
| "render_token env l t (Letters c n) =
     (if c = CHR ''d'' \<and> n = 4 then weekdays l (weekday t)
      else if c = CHR ''D'' \<and> n = 2 then pad_start 2 (show_nat (day t))
      else if c = CHR ''M'' \<and> n = 4 then months l (month t)
      else if c = CHR ''Y'' \<and> n = 4 then pad_start 4 (show_int (year t))
      else if c = CHR ''H'' \<and> n = 2 then pad_start 2 (show_nat (hour t))
      else if c = CHR ''h'' \<and> n = 2 then pad_start 2 (show_nat (hour12 (hour t)))
      else if c = CHR ''m'' \<and> n = 2 then pad_start 2 (show_nat (minute t))
      else if c = CHR ''A'' \<and> n = 1 then meridiem (hour t)
      else other_field env c n)"

text \<open>
  The values that the calls pass along: a dayjs object, with its date and its locale; a
  plain string, which is what \<^verbatim>\<open>.locale\<close> returns when its argument is empty (it
  then reads the locale instead of setting it); or the trace of a call that has thrown.
  A string has no method \<^verbatim>\<open>format\<close>, so calling it throws a TypeError.
\<close>

datatype js_error = TypeError

record dayjs_obj =
  obj_date :: date_input
  obj_locale :: locale_pack

datatype js_value = Obj dayjs_obj | Str string | Thrown js_error

definition dayjs :: "dayjs_env \<Rightarrow> (date_input, js_value, js_error + string) dayjs_api" where
  "dayjs env =
     \<lparr>dayjs_make = (\<lambda>d. Obj \<lparr>obj_date = d, obj_locale = global_locale env\<rparr>),
      dayjs_locale = (\<lambda>v language.
        case v of
          Obj ob \<Rightarrow>
            if language = [] then Str (locale_name (obj_locale ob))
            else (case resolve env language of
                    Some l \<Rightarrow> Obj (ob\<lparr>obj_locale := l\<rparr>)
                  | None \<Rightarrow> Obj ob)
        | Str s \<Rightarrow> Thrown TypeError
        | Thrown e \<Rightarrow> Thrown e),
      dayjs_format = (\<lambda>v pattern.
        case v of
          Obj ob \<Rightarrow>
            (case obj_date ob of
               Invalid_Date \<Rightarrow> Inr ''Invalid Date''
             | Local_Time t \<Rightarrow>
                 Inr (concat (map (render_token env (obj_locale ob) t) (tokenize pattern))))
        | Str s \<Rightarrow> Inl TypeError
        | Thrown e \<Rightarrow> Inl e)\<rparr>"

text \<open>AM or PM somewhere in a text.\<close>

definition has_meridiem :: "string \<Rightarrow> bool" where
  "has_meridiem s = (sublist ''AM'' s \<or> sublist ''PM'' s)"

text \<open>
  A sample: French and English are found under their codes in any letter case, and under
  a code that goes on with a hyphen; new objects start in English. The moment is Monday
  1 January 2024, 15:04.
\<close>

definition sample_env :: dayjs_env where
  "sample_env =
     \<lparr>resolve = (\<lambda>code.
        let c = map to_lower (takeWhile (\<lambda>x. x \<noteq> CHR ''-'') code)
        in if c = ''fr'' then Some Fr else if c = ''en'' then Some En else None),
      global_locale = En,
      other_field = (\<lambda>c n. [])\<rparr>"

definition sample_moment :: moment where
  "sample_moment =
     \<lparr>year = 2024, month = January, day = 1, weekday = Monday, hour = 15, minute = 4\<rparr>"

section \<open>Facts about path matching\<close>

lemma to_lower_slash: "to_lower c = CHR ''/'' \<longleftrightarrow> c = CHR ''/''"
  by (simp add: to_lower_def)

lemma digit_not_slash: "is_digit c \<Longrightarrow> c \<noteq> CHR ''/''"
  by (auto simp: is_digit_def)

lemma match_path_head: "match_path ps r \<Longrightarrow> r = [] \<or> hd r = CHR ''/''"
proof (cases ps)
  case Nil
  assume "match_path ps r"
  with Nil show ?thesis by auto
next
  case (Cons p ps')
  assume m: "match_path ps r"
  show ?thesis
  proof (cases p)
    case (Literal l)
    show ?thesis
    proof (cases r)
      case Nil
      then show ?thesis by simp
    next
      case (Cons x xs)
      with m \<open>ps = p # ps'\<close> Literal have "to_lower x = to_lower (CHR ''/'')"
        by (simp split: if_splits)
      moreover have "to_lower (CHR ''/'') = CHR ''/''" by (simp add: to_lower_def)
      ultimately have "x = CHR ''/''" by (simp add: to_lower_slash)
      with Cons show ?thesis by simp
    qed
  next
    case (Digits n)
    with m Cons show ?thesis
      by (cases r) auto
  qed
qed


lemma to_lower_digit: "is_digit c \<Longrightarrow> to_lower c = c"
proof -
  assume "is_digit c"
  then have "c \<in> set ''0123456789''" by (simp only: is_digit_def)
  then consider "c = CHR ''0''" | "c = CHR ''1''" | "c = CHR ''2''" | "c = CHR ''3''"
    | "c = CHR ''4''" | "c = CHR ''5''" | "c = CHR ''6''" | "c = CHR ''7''"
    | "c = CHR ''8''" | "c = CHR ''9''"
    by auto
  then show ?thesis
    by cases (simp_all add: to_lower_def)
qed

lemma strip_ci_Some:
  "strip_ci l s = Some r \<longleftrightarrow>
     (\<exists>a. s = a @ r \<and> length a = length l \<and> map to_lower a = map to_lower l)"
proof (induction l s rule: strip_ci.induct)
  case (1 s)
  show ?case by auto
next
  case (2 c cs)
  show ?case by auto
next
  case (3 c cs x xs)
  show ?case
  proof
    assume "strip_ci (c # cs) (x # xs) = Some r"
    then have e: "to_lower x = to_lower c" and s: "strip_ci cs xs = Some r"
      by (auto split: if_splits)
    from s 3 e obtain a where "xs = a @ r" "length a = length cs" "map to_lower a = map to_lower cs"
      by auto
    with e have "x # xs = (x # a) @ r \<and> length (x # a) = length (c # cs) \<and> map to_lower (x # a) = map to_lower (c # cs)"
      by simp
    then show "\<exists>a. x # xs = a @ r \<and> length a = length (c # cs) \<and> map to_lower a = map to_lower (c # cs)"
      by blast
  next
    assume "\<exists>a. x # xs = a @ r \<and> length a = length (c # cs) \<and> map to_lower a = map to_lower (c # cs)"
    then obtain a where a: "x # xs = a @ r" "length a = length (c # cs)" "map to_lower a = map to_lower (c # cs)"
      by blast
    then obtain y ys where ay: "a = y # ys" by (cases a) auto
    with a have "x = y" "xs = ys @ r" "length ys = length cs" "to_lower y = to_lower c" "map to_lower ys = map to_lower cs"
      by auto
    with 3 show "strip_ci (c # cs) (x # xs) = Some r" by auto
  qed
qed

lemma match_digits_greedy:
  "match_path (Digits n # ps) (c # cs) \<longleftrightarrow>
     c = CHR ''/'' \<and> takeWhile is_digit cs \<noteq> [] \<and> match_path ps (dropWhile is_digit cs)"
proof -
  let ?n = "length (takeWhile is_digit cs)"
  have only: "k = ?n" if k: "k < Suc ?n" and m: "match_path ps (drop k cs)" for k
  proof (rule ccontr)
    assume "k \<noteq> ?n"
    with k have lt: "k < ?n" by simp
    have le: "?n \<le> length cs" by (rule length_takeWhile_le)
    with lt have kl: "k < length cs" by simp
    then have ne: "drop k cs \<noteq> []" by simp
    have "hd (drop k cs) = cs ! k" using kl by (rule hd_drop_conv_nth)
    also have "\<dots> = takeWhile is_digit cs ! k" using lt by (simp add: takeWhile_nth)
    finally have "hd (drop k cs) \<in> set (takeWhile is_digit cs)" using lt by simp
    then have "is_digit (hd (drop k cs))" by (rule set_takeWhileD[THEN conjunct2])
    then have "hd (drop k cs) \<noteq> CHR ''/''" by (rule digit_not_slash)
    with match_path_head[OF m] ne show False by simp
  qed
  have dd: "drop ?n cs = dropWhile is_digit cs" by (simp add: dropWhile_eq_drop)
  show ?thesis
  proof
    assume "match_path (Digits n # ps) (c # cs)"
    then have c: "c = CHR ''/''" and "\<exists>k\<in>set [1 ..< Suc ?n]. match_path ps (drop k cs)"
      by (auto simp: list_ex_iff)
    then obtain k where k: "1 \<le> k" "k < Suc ?n" "match_path ps (drop k cs)" by auto
    from only[OF k(2,3)] k dd c
    show "c = CHR ''/'' \<and> takeWhile is_digit cs \<noteq> [] \<and> match_path ps (dropWhile is_digit cs)"
      by auto
  next
    assume a: "c = CHR ''/'' \<and> takeWhile is_digit cs \<noteq> [] \<and> match_path ps (dropWhile is_digit cs)"
    then have "?n \<in> set [1 ..< Suc ?n]" by (cases "takeWhile is_digit cs") auto
    moreover from a dd have "match_path ps (drop ?n cs)" by simp
    ultimately have "list_ex (\<lambda>k. match_path ps (drop k cs)) [1 ..< Suc ?n]"
      unfolding list_ex_iff by blast
    with a show "match_path (Digits n # ps) (c # cs)" by simp
  qed
qed

section \<open>Facts about running a stack\<close>

lemma run_stack_prefix: "prefix (executed (run_stack b req hs s)) hs"
  by (induction hs arbitrary: s) (auto split: prod.splits outcome.splits simp: Let_def)

lemma run_stack_nonempty: "hs \<noteq> [] \<Longrightarrow> executed (run_stack b req hs s) \<noteq> []"
  by (cases hs) (auto split: prod.splits outcome.splits simp: Let_def)

lemma run_stack_all_pass:
  "all_pass b req hs s \<Longrightarrow> executed (run_stack b req (hs @ [c]) s) = hs @ [c]"
  by (induction hs arbitrary: s) (auto split: prod.splits outcome.splits simp: Let_def)

lemma run_stack_passed:
  "run_stack b req pre s = \<lparr>executed = pre, reply = None, world = s'\<rparr> \<Longrightarrow>
   run_stack b req (pre @ hs) s =
     (let r = run_stack b req hs s' in r\<lparr>executed := pre @ executed r\<rparr>)"
proof (induction pre arbitrary: s)
  case Nil
  then show ?case by (simp add: Let_def)
next
  case (Cons p pre)
  show ?case
  proof (cases "b p req s")
    case (Pair out s1)
    show ?thesis
    proof (cases out)
      case Next
      with Pair Cons.prems have "run_stack b req pre s1 = \<lparr>executed = pre, reply = None, world = s'\<rparr>"
        by (cases "run_stack b req pre s1") (simp add: Let_def)
      from Cons.IH[OF this] Pair Next show ?thesis by (simp add: Let_def)
    next
      case (Respond r)
      with Pair Cons.prems show ?thesis by simp
    qed
  qed
qed

lemma run_stack_reject:
  assumes "run_stack b req pre s = \<lparr>executed = pre, reply = None, world = s'\<rparr>"
    and "b h req s' = (Respond resp, s'')"
  shows "run_stack b req (pre @ h # post) s =
           \<lparr>executed = pre @ [h], reply = Some resp, world = s''\<rparr>"
  using run_stack_passed[OF assms(1), of "h # post"] assms(2) by (simp add: Let_def)

lemma handle_from_no_match:
  "filter (\<lambda>rt. route_matches rt req) rts = [] \<Longrightarrow>
   handle_from b req rts s = \<lparr>executed = [], reply = None, world = s\<rparr>"
  by (induction rts) (auto split: if_splits)

lemma handle_from_one_match:
  "filter (\<lambda>rt. route_matches rt req) rts = [rt] \<Longrightarrow>
   handle_from b req rts s = run_stack b req (route_stack rt) s"
proof (induction rts)
  case Nil
  then show ?case by simp
next
  case (Cons x rts)
  show ?case
  proof (cases "route_matches x req")
    case True
    with Cons.prems have x: "x = rt" and rest: "filter (\<lambda>rt. route_matches rt req) rts = []"
      by auto
    show ?thesis
      using True x handle_from_no_match[OF rest, of b]
      by (cases "run_stack b req (route_stack rt) s") (auto simp: Let_def split: option.splits)
  next
    case False
    with Cons show ?thesis by simp
  qed
qed

lemma handle_from_first_reply:
  "find (\<lambda>rt. route_matches rt req) rts = Some rt \<Longrightarrow>
   reply (run_stack b req (route_stack rt) s) = Some resp \<Longrightarrow>
   handle_from b req rts s = run_stack b req (route_stack rt) s"
  by (induction rts) (auto split: if_splits simp: Let_def)

section \<open>Which route takes which request\<close>

lemma slash_not_digit: "\<not> is_digit (CHR ''/'')"
  by (simp add: is_digit_def)

lemma takeWhile_numeric_slash:
  "list_all is_digit ds \<Longrightarrow> takeWhile is_digit (ds @ CHR ''/'' # r) = ds"
  by (simp add: list_all_iff slash_not_digit)

lemma dropWhile_numeric_slash:
  "list_all is_digit ds \<Longrightarrow> dropWhile is_digit (ds @ CHR ''/'' # r) = CHR ''/'' # r"
  by (simp add: list_all_iff slash_not_digit)

lemmas route_defs = get_user_def get_search_def patch_update_def patch_update_password_def
  patch_update_username_def put_update_avatar_def delete_user_def post_follow_def
  delete_unfollow_def

lemma match_id_then:
  "numeric uid \<Longrightarrow> match_path (Digits n # ps) (CHR ''/'' # uid @ CHR ''/'' # r) = match_path ps (CHR ''/'' # r)"
  by (simp add: match_digits_greedy numeric_def takeWhile_numeric_slash dropWhile_numeric_slash del: match_path.simps(3))

lemma patch_update_takes:
  "numeric uid \<Longrightarrow>
   route_matches patch_update \<lparr>req_method = PATCH, req_path = ''/'' @ uid @ ''/update''\<rparr>"
  by (simp add: patch_update_def route_matches_def handles_method_def match_id_then to_lower_def
      del: match_path.simps(3))

lemma patch_update_password_takes:
  "numeric uid \<Longrightarrow>
   route_matches patch_update_password
     \<lparr>req_method = PATCH, req_path = ''/'' @ uid @ ''/update/password''\<rparr>"
  by (simp add: patch_update_password_def route_matches_def handles_method_def match_id_then
      to_lower_def del: match_path.simps(3))

lemma patch_update_username_takes:
  "numeric uid \<Longrightarrow>
   route_matches patch_update_username
     \<lparr>req_method = PATCH, req_path = ''/'' @ uid @ ''/update/username''\<rparr>"
  by (simp add: patch_update_username_def route_matches_def handles_method_def match_id_then
      to_lower_def del: match_path.simps(3))

lemma put_update_avatar_takes:
  "numeric uid \<Longrightarrow>
   route_matches put_update_avatar
     \<lparr>req_method = PUT, req_path = ''/'' @ uid @ ''/update/avatar''\<rparr>"
  by (simp add: put_update_avatar_def route_matches_def handles_method_def match_id_then
      to_lower_def del: match_path.simps(3))

lemma delete_user_takes:
  "numeric uid \<Longrightarrow>
   route_matches delete_user \<lparr>req_method = DELETE, req_path = ''/'' @ uid @ ''/delete''\<rparr>"
  by (simp add: delete_user_def route_matches_def handles_method_def match_id_then to_lower_def
      del: match_path.simps(3))

lemma match_single_id:
  assumes "CHR ''/'' \<notin> set n"
  shows "match_path [Digits i] (CHR ''/'' # n) \<longleftrightarrow> numeric n"
proof -
  have "dropWhile is_digit n \<noteq> ''/''"
  proof
    assume "dropWhile is_digit n = ''/''"
    then have "CHR ''/'' \<in> set (dropWhile is_digit n)" by simp
    then have "CHR ''/'' \<in> set n" by (rule set_dropWhileD)
    with assms show False by simp
  qed
  then have "match_path [Digits i] (CHR ''/'' # n) \<longleftrightarrow>
               takeWhile is_digit n \<noteq> [] \<and> dropWhile is_digit n = []"
    by (simp add: match_digits_greedy del: match_path.simps(3))
  also have "\<dots> \<longleftrightarrow> numeric n"
    by (cases n) (auto simp: numeric_def list_all_iff)
  finally show ?thesis .
qed

lemma match_search:
  assumes "CHR ''/'' \<notin> set n"
  shows "match_path [Literal ''search''] (CHR ''/'' # n) \<longleftrightarrow> map to_lower n = ''search''"
proof
  assume "match_path [Literal ''search''] (CHR ''/'' # n)"
  then obtain r where s: "strip_ci ''/search'' (CHR ''/'' # n) = Some r" and r: "r = [] \<or> r = ''/''"
    by (auto split: option.splits)
  from s obtain a where a: "CHR ''/'' # n = a @ r" "length a = length ''/search''"
      "map to_lower a = map to_lower ''/search''"
    unfolding strip_ci_Some by blast
  from a(2) obtain x a' where xa: "a = x # a'" by (cases a) auto
  with a(1) have n: "n = a' @ r" by simp
  with assms r have "r = []" by auto
  with n xa a(3) show "map to_lower n = ''search''"
    by (simp add: to_lower_def)
next
  assume m: "map to_lower n = ''search''"
  then have "length (map to_lower n) = length ''search''" by simp
  then have l: "length n = 6" by simp
  have "CHR ''/'' # n = (CHR ''/'' # n) @ [] \<and> length (CHR ''/'' # n) = length ''/search'' \<and>
        map to_lower (CHR ''/'' # n) = map to_lower ''/search''"
    using m l by (simp add: to_lower_def)
  then have "strip_ci ''/search'' (CHR ''/'' # n) = Some []"
    unfolding strip_ci_Some by blast
  then show "match_path [Literal ''search''] (CHR ''/'' # n)" by simp
qed

lemma dispatch_get_segment:
  assumes "CHR ''/'' \<notin> set n"
  shows "dispatch \<lparr>req_method = GET, req_path = CHR ''/'' # n\<rparr> =
           (if numeric n then Some get_user
            else if map to_lower n = ''search'' then Some get_search
            else None)"
  using match_single_id[OF assms, of "''id''"] match_search[OF assms]
  by (simp add: dispatch_def router_def route_defs route_matches_def handles_method_def
        del: match_path.simps)

lemma id_not_search:
  assumes "match_path [Digits i] p"
  shows "\<not> match_path [Literal ''search''] p"
proof
  assume s: "match_path [Literal ''search''] p"
  from assms obtain c cs where pc: "p = c # cs"
    by (cases p) auto
  from assms have c: "c = CHR ''/''" and t: "takeWhile is_digit cs \<noteq> []"
    unfolding pc match_digits_greedy by blast+
  from t obtain x xs where cs: "cs = x # xs" and x: "is_digit x"
    by (cases cs) (auto split: if_splits)
  have "to_lower x \<noteq> to_lower (CHR ''s'') \<Longrightarrow> \<not> match_path [Literal ''search''] (CHR ''/'' # x # xs)"
    by simp
  with s pc c cs have "to_lower x = to_lower (CHR ''s'')" by blast
  moreover from x have "to_lower x = x" by (rule to_lower_digit)
  moreover have "to_lower (CHR ''s'') = CHR ''s''" by (simp add: to_lower_def)
  ultimately have "x = CHR ''s''" by simp
  with x show False by (simp add: is_digit_def)
qed

lemma get_user_taken_alone:
  assumes "route_matches get_user req"
  shows "filter (\<lambda>rt. route_matches rt req) router = [get_user]"
proof -
  from assms have p: "match_path [Digits ''id''] (req_path req)"
    and m: "req_method req = GET \<or> req_method req = HEAD"
    by (auto simp: route_matches_def get_user_def handles_method_def)
  from id_not_search[OF p] have s: "\<not> route_matches get_search req"
    by (simp add: route_matches_def get_search_def)
  have v: "\<not> route_matches rt req" if "route_verb rt \<noteq> GET" "route_verb rt \<noteq> HEAD" for rt
    using m that by (auto simp: route_matches_def handles_method_def)
  have "\<not> route_matches patch_update req" "\<not> route_matches patch_update_password req"
    "\<not> route_matches patch_update_username req" "\<not> route_matches put_update_avatar req"
    "\<not> route_matches delete_user req" "\<not> route_matches post_follow req"
    "\<not> route_matches delete_unfollow req"
    by (rule v; simp add: route_defs)+
  with assms s show ?thesis
    by (simp add: router_def)
qed

lemma strip_ci_self: "strip_ci l (l @ r) = Some r"
  by (induction l) simp_all

lemma match_two_ids:
  assumes a: "CHR ''/'' \<notin> set a" and b: "CHR ''/'' \<notin> set b"
  shows "match_path [Digits i, Literal w, Digits j] (CHR ''/'' # a @ CHR ''/'' # w @ CHR ''/'' # b)
           \<longleftrightarrow> numeric a \<and> numeric b"
proof (cases "list_all is_digit a")
  case True
  have lit: "match_path [Literal w, Digits j] (CHR ''/'' # w @ CHR ''/'' # b)
               = match_path [Digits j] (CHR ''/'' # b)"
    using strip_ci_self[of "CHR ''/'' # w" "CHR ''/'' # b"] by (simp del: match_path.simps(3))
  from True have "match_path [Digits i, Literal w, Digits j] (CHR ''/'' # a @ CHR ''/'' # w @ CHR ''/'' # b)
      \<longleftrightarrow> a \<noteq> [] \<and> match_path [Literal w, Digits j] (CHR ''/'' # w @ CHR ''/'' # b)"
    unfolding match_digits_greedy
    by (simp add: takeWhile_numeric_slash dropWhile_numeric_slash del: match_path.simps)
  also have "\<dots> \<longleftrightarrow> a \<noteq> [] \<and> numeric b"
    unfolding lit match_single_id[OF b] ..
  also have "\<dots> \<longleftrightarrow> numeric a \<and> numeric b"
    using True by (simp add: numeric_def)
  finally show ?thesis .
next
  case False
  then obtain x where x: "x \<in> set a" "\<not> is_digit x"
    by (auto simp: list_all_iff)
  let ?rest = "CHR ''/'' # w @ CHR ''/'' # b"
  have dw: "dropWhile is_digit (a @ ?rest) = dropWhile is_digit a @ ?rest"
    using x by (rule dropWhile_append1)
  from x have ne: "dropWhile is_digit a \<noteq> []" by auto
  then have "hd (dropWhile is_digit a) \<in> set (dropWhile is_digit a)" by simp
  then have "hd (dropWhile is_digit a) \<in> set a" by (rule set_dropWhileD)
  with a have h: "hd (dropWhile is_digit a) \<noteq> CHR ''/''" by auto
  have "\<not> match_path [Literal w, Digits j] (dropWhile is_digit a @ ?rest)"
  proof
    assume "match_path [Literal w, Digits j] (dropWhile is_digit a @ ?rest)"
    from match_path_head[OF this] ne h show False by simp
  qed
  then have "\<not> match_path [Digits i, Literal w, Digits j] (CHR ''/'' # a @ ?rest)"
    unfolding match_digits_greedy dw by blast
  with False show ?thesis by (simp add: numeric_def del: match_path.simps)
qed

lemma get_search_takes:
  "route_matches get_search \<lparr>req_method = GET, req_path = ''/search''\<rparr>"
  by (simp add: get_search_def route_matches_def handles_method_def to_lower_def)

lemma strip_ci_first:
  assumes "strip_ci (c # a # l) s = Some r" and that: "c = CHR ''/''"
  shows "\<exists>x xs. s = CHR ''/'' # x # xs \<and> to_lower x = to_lower a"
proof -
  from assms obtain y ys where s: "s = y # ys" by (cases s) auto
  with assms have y: "to_lower y = to_lower c" and r: "strip_ci (a # l) ys = Some r"
    by (auto split: if_splits)
  from r obtain x xs where ys: "ys = x # xs" by (cases ys) auto
  with r have "to_lower x = to_lower a" by (auto split: if_splits)
  moreover from y that have "y = CHR ''/''"
    using to_lower_slash[of y] by (simp add: to_lower_def)
  ultimately show ?thesis using s ys by blast
qed

lemma literal_first:
  assumes "match_path (Literal (a # l) # ps) s"
  shows "\<exists>x xs. s = CHR ''/'' # x # xs \<and> to_lower x = to_lower a"
proof -
  from assms obtain r where "strip_ci (CHR ''/'' # a # l) s = Some r"
    by (auto split: option.splits)
  then show ?thesis by (rule strip_ci_first) simp
qed

lemma literals_differ:
  assumes "match_path (Literal (a # l) # ps) s" and "match_path (Literal (a' # l') # ps') s"
  shows "to_lower a = to_lower a'"
  using literal_first[OF assms(1)] literal_first[OF assms(2)] by auto

lemma digits_rest:
  assumes "match_path (Digits i # ps) p"
  shows "\<exists>cs. p = CHR ''/'' # cs \<and> match_path ps (dropWhile is_digit cs)"
proof (cases p)
  case Nil
  with assms show ?thesis by simp
next
  case (Cons c cs)
  with assms show ?thesis
    unfolding Cons match_digits_greedy by blast
qed

lemma literal_rest:
  assumes "match_path (Literal l # ps) s"
  shows "\<exists>r. strip_ci (CHR ''/'' # l) s = Some r \<and> match_path ps r"
  using assms by (auto split: option.splits)

lemma update_not_longer:
  assumes "match_path [Digits i, Literal ''update''] p"
  shows "\<not> match_path [Digits j, Literal ''update'', Literal (a # l)] p"
proof
  assume m: "match_path [Digits j, Literal ''update'', Literal (a # l)] p"
  from digits_rest[OF assms] obtain cs where p: "p = CHR ''/'' # cs"
    and 1: "match_path [Literal ''update''] (dropWhile is_digit cs)" by blast
  from digits_rest[OF m] p
  have 2: "match_path [Literal ''update'', Literal (a # l)] (dropWhile is_digit cs)" by simp
  from literal_rest[OF 1] obtain r where r: "strip_ci ''/update'' (dropWhile is_digit cs) = Some r"
    and e: "r = [] \<or> r = ''/''" by auto
  from literal_rest[OF 2] r have "match_path [Literal (a # l)] r" by simp
  from literal_first[OF this] e show False by auto
qed

lemma password_not_username:
  assumes "match_path [Digits i, Literal ''update'', Literal ''password''] p"
  shows "\<not> match_path [Digits j, Literal ''update'', Literal ''username''] p"
proof
  assume m: "match_path [Digits j, Literal ''update'', Literal ''username''] p"
  from digits_rest[OF assms] obtain cs where p: "p = CHR ''/'' # cs"
    and 1: "match_path [Literal ''update'', Literal ''password''] (dropWhile is_digit cs)" by blast
  from digits_rest[OF m] p
  have 2: "match_path [Literal ''update'', Literal ''username''] (dropWhile is_digit cs)" by simp
  from literal_rest[OF 1] obtain r where r: "strip_ci ''/update'' (dropWhile is_digit cs) = Some r"
    and a: "match_path [Literal ''password''] r" by auto
  from literal_rest[OF 2] r have b: "match_path [Literal ''username''] r" by simp
  from literals_differ[OF a b] show False by (simp add: to_lower_def)
qed

lemma delete_not_unfollow:
  assumes "match_path [Digits i, Literal ''delete''] p"
  shows "\<not> match_path [Digits j, Literal ''unfollow'', Digits k] p"
proof
  assume m: "match_path [Digits j, Literal ''unfollow'', Digits k] p"
  from digits_rest[OF assms] obtain cs where p: "p = CHR ''/'' # cs"
    and 1: "match_path [Literal ''delete''] (dropWhile is_digit cs)" by blast
  from digits_rest[OF m] p
  have 2: "match_path [Literal ''unfollow'', Digits k] (dropWhile is_digit cs)" by simp
  from literals_differ[OF 1 2] show False by (simp add: to_lower_def)
qed


lemma other_verb:
  assumes "route_matches rt req" and "route_verb rt \<noteq> GET" and "route_verb rt \<noteq> HEAD"
    and "route_verb rt' \<noteq> route_verb rt"
  shows "\<not> route_matches rt' req"
  using assms by (auto simp: route_matches_def handles_method_def)

lemma get_search_taken_alone:
  assumes "route_matches get_search req"
  shows "filter (\<lambda>rt. route_matches rt req) router = [get_search]"
proof -
  from assms have p: "match_path [Literal ''search''] (req_path req)"
    and m: "req_method req = GET \<or> req_method req = HEAD"
    by (auto simp: route_matches_def get_search_def handles_method_def)
  from id_not_search[of "''id''" "req_path req"] p have s: "\<not> route_matches get_user req"
    by (auto simp: route_matches_def get_user_def)
  have v: "\<not> route_matches rt req" if "route_verb rt \<noteq> GET" "route_verb rt \<noteq> HEAD" for rt
    using m that by (auto simp: route_matches_def handles_method_def)
  have "\<not> route_matches patch_update req" "\<not> route_matches patch_update_password req"
    "\<not> route_matches patch_update_username req" "\<not> route_matches put_update_avatar req"
    "\<not> route_matches delete_user req" "\<not> route_matches post_follow req"
    "\<not> route_matches delete_unfollow req"
    by (rule v; simp add: route_defs)+
  with assms s show ?thesis
    by (simp add: router_def)
qed

lemma patch_update_taken_alone:
  assumes "route_matches patch_update req"
  shows "filter (\<lambda>rt. route_matches rt req) router = [patch_update]"
proof -
  note v = other_verb[OF assms]
  from assms have p: "match_path [Digits ''id'', Literal ''update''] (req_path req)"
    by (simp add: route_matches_def patch_update_def del: match_path.simps)
  have "\<not> route_matches patch_update_password req" "\<not> route_matches patch_update_username req"
    using update_not_longer[OF p]
    by (simp_all add: route_matches_def patch_update_password_def patch_update_username_def
        del: match_path.simps)
  moreover have "\<not> route_matches get_user req" "\<not> route_matches get_search req"
    "\<not> route_matches put_update_avatar req" "\<not> route_matches delete_user req"
    "\<not> route_matches post_follow req" "\<not> route_matches delete_unfollow req"
    by (rule v; simp add: route_defs)+
  ultimately show ?thesis using assms
    by (simp add: router_def)
qed

lemma patch_update_password_taken_alone:
  assumes "route_matches patch_update_password req"
  shows "filter (\<lambda>rt. route_matches rt req) router = [patch_update_password]"
proof -
  note v = other_verb[OF assms]
  from assms have p: "match_path [Digits ''id'', Literal ''update'', Literal ''password'']
      (req_path req)"
    by (simp add: route_matches_def patch_update_password_def del: match_path.simps)
  have "\<not> route_matches patch_update req"
    using update_not_longer[of "''id''" "req_path req" "''id''" "CHR ''p''" "''assword''"] p
    by (auto simp: route_matches_def patch_update_def simp del: match_path.simps)
  moreover have "\<not> route_matches patch_update_username req"
    using password_not_username[OF p]
    by (simp add: route_matches_def patch_update_username_def del: match_path.simps)
  moreover have "\<not> route_matches get_user req" "\<not> route_matches get_search req"
    "\<not> route_matches put_update_avatar req" "\<not> route_matches delete_user req"
    "\<not> route_matches post_follow req" "\<not> route_matches delete_unfollow req"
    by (rule v; simp add: route_defs)+
  ultimately show ?thesis using assms
    by (simp add: router_def)
qed

lemma patch_update_username_taken_alone:
  assumes "route_matches patch_update_username req"
  shows "filter (\<lambda>rt. route_matches rt req) router = [patch_update_username]"
proof -
  note v = other_verb[OF assms]
  from assms have p: "match_path [Digits ''id'', Literal ''update'', Literal ''username'']
      (req_path req)"
    by (simp add: route_matches_def patch_update_username_def del: match_path.simps)
  have "\<not> route_matches patch_update req"
    using update_not_longer[of "''id''" "req_path req" "''id''" "CHR ''u''" "''sername''"] p
    by (auto simp: route_matches_def patch_update_def simp del: match_path.simps)
  moreover have "\<not> route_matches patch_update_password req"
    using password_not_username[of "''id''" "req_path req" "''id''"] p
    by (auto simp: route_matches_def patch_update_password_def simp del: match_path.simps)
  moreover have "\<not> route_matches get_user req" "\<not> route_matches get_search req"
    "\<not> route_matches put_update_avatar req" "\<not> route_matches delete_user req"
    "\<not> route_matches post_follow req" "\<not> route_matches delete_unfollow req"
    by (rule v; simp add: route_defs)+
  ultimately show ?thesis using assms
    by (simp add: router_def)
qed

lemma put_update_avatar_taken_alone:
  assumes "route_matches put_update_avatar req"
  shows "filter (\<lambda>rt. route_matches rt req) router = [put_update_avatar]"
proof -
  note v = other_verb[OF assms]
  have "\<not> route_matches get_user req" "\<not> route_matches get_search req"
    "\<not> route_matches patch_update req" "\<not> route_matches patch_update_password req"
    "\<not> route_matches patch_update_username req" "\<not> route_matches delete_user req"
    "\<not> route_matches post_follow req" "\<not> route_matches delete_unfollow req"
    by (rule v; simp add: route_defs)+
  then show ?thesis using assms
    by (simp add: router_def)
qed

lemma delete_user_taken_alone:
  assumes "route_matches delete_user req"
  shows "filter (\<lambda>rt. route_matches rt req) router = [delete_user]"
proof -
  note v = other_verb[OF assms]
  from assms have p: "match_path [Digits ''id'', Literal ''delete''] (req_path req)"
    by (simp add: route_matches_def delete_user_def del: match_path.simps)
  have "\<not> route_matches delete_unfollow req"
    using delete_not_unfollow[OF p]
    by (simp add: route_matches_def delete_unfollow_def del: match_path.simps)
  moreover have "\<not> route_matches get_user req" "\<not> route_matches get_search req"
    "\<not> route_matches patch_update req" "\<not> route_matches patch_update_password req"
    "\<not> route_matches patch_update_username req" "\<not> route_matches put_update_avatar req"
    "\<not> route_matches post_follow req"
    by (rule v; simp add: route_defs)+
  ultimately show ?thesis using assms
    by (simp add: router_def)
qed

lemma post_follow_taken_alone:
  assumes "route_matches post_follow req"
  shows "filter (\<lambda>rt. route_matches rt req) router = [post_follow]"
proof -
  note v = other_verb[OF assms]
  have "\<not> route_matches get_user req" "\<not> route_matches get_search req"
    "\<not> route_matches patch_update req" "\<not> route_matches patch_update_password req"
    "\<not> route_matches patch_update_username req" "\<not> route_matches put_update_avatar req"
    "\<not> route_matches delete_user req" "\<not> route_matches delete_unfollow req"
    by (rule v; simp add: route_defs)+
  then show ?thesis using assms
    by (simp add: router_def)
qed

lemma delete_unfollow_taken_alone:
  assumes "route_matches delete_unfollow req"
  shows "filter (\<lambda>rt. route_matches rt req) router = [delete_unfollow]"
proof -
  note v = other_verb[OF assms]
  from assms have p: "match_path [Digits ''id'', Literal ''unfollow'', Digits ''toUnfollowId'']
      (req_path req)"
    by (simp add: route_matches_def delete_unfollow_def del: match_path.simps)
  have "\<not> route_matches delete_user req"
    using delete_not_unfollow[of "''id''" "req_path req" "''id''" "''toUnfollowId''"] p
    by (auto simp: route_matches_def delete_user_def simp del: match_path.simps)
  moreover have "\<not> route_matches get_user req" "\<not> route_matches get_search req"
    "\<not> route_matches patch_update req" "\<not> route_matches patch_update_password req"
    "\<not> route_matches patch_update_username req" "\<not> route_matches put_update_avatar req"
    "\<not> route_matches post_follow req"
    by (rule v; simp add: route_defs)+
  ultimately show ?thesis using assms
    by (simp add: router_def)
qed

lemma taken_alone:
  assumes "rt \<in> set router" and "route_matches rt req"
  shows "filter (\<lambda>r. route_matches r req) router = [rt]"
proof -
  from assms(1) consider "rt = get_user" | "rt = get_search" | "rt = patch_update"
    | "rt = patch_update_password" | "rt = patch_update_username" | "rt = put_update_avatar"
    | "rt = delete_user" | "rt = post_follow" | "rt = delete_unfollow"
    unfolding router_def by auto
  then show ?thesis
    using assms(2)
    by cases
      (simp_all only: get_user_taken_alone get_search_taken_alone patch_update_taken_alone
        patch_update_password_taken_alone patch_update_username_taken_alone
        put_update_avatar_taken_alone delete_user_taken_alone post_follow_taken_alone
        delete_unfollow_taken_alone)
qed

lemma stacks_distinct: "rt \<in> set router \<Longrightarrow> distinct (route_stack rt)"
  by (auto simp: router_def route_defs)

lemma find_filter_single: "filter P xs = [x] \<Longrightarrow> find P xs = Some x"
  by (induction xs) (auto split: if_splits)

lemma dispatch_filter:
  "filter (\<lambda>rt. route_matches rt req) router = [rt] \<Longrightarrow> dispatch req = Some rt"
  unfolding dispatch_def by (rule find_filter_single)

lemma handle_from_dispatch_none:
  "dispatch req = None \<Longrightarrow> handle b req s = \<lparr>executed = [], reply = None, world = s\<rparr>"
  unfolding handle_def dispatch_def
  by (rule handle_from_no_match) (simp add: find_None_iff filter_empty_conv)

lemma unique_route_run:
  assumes "filter (\<lambda>rt. route_matches rt req) router = [rt]"
  shows "handle b req s = run_stack b req (route_stack rt) s"
  unfolding handle_def using assms by (rule handle_from_one_match)

lemma unique_route_chain:
  assumes "filter (\<lambda>rt. route_matches rt req) router = [rt]"
    and "route_stack rt = mws @ [c]"
  shows "dispatch req = Some rt \<and> runs_in_order (handle b req s) (mws @ [c]) \<and>
         (all_pass b req mws s \<longrightarrow> executed (handle b req s) = mws @ [c])"
proof -
  have h: "handle b req s = run_stack b req (mws @ [c]) s"
    using unique_route_run[OF assms(1)] assms(2) by simp
  have "runs_in_order (handle b req s) (mws @ [c])"
    unfolding h runs_in_order_def
    using run_stack_prefix[of b req "mws @ [c]" s] run_stack_nonempty[of "mws @ [c]" b req s]
    by simp
  moreover have "all_pass b req mws s \<longrightarrow> executed (handle b req s) = mws @ [c]"
    unfolding h by (simp add: run_stack_all_pass)
  ultimately show ?thesis using dispatch_filter[OF assms(1)] by simp
qed

lemma route_chain:
  assumes "rt \<in> set router" and "route_matches rt req" and "route_stack rt = mws @ [c]"
  shows "dispatch req = Some rt \<and> runs_in_order (handle b req s) (mws @ [c]) \<and>
         (all_pass b req mws s \<longrightarrow> executed (handle b req s) = mws @ [c])"
  using taken_alone[OF assms(1,2)] assms(3) by (rule unique_route_chain)

lemma prefix_no_rate_limit:
  "prefix xs chain \<Longrightarrow> filter is_rate_limit chain = [] \<Longrightarrow> filter is_rate_limit xs = []"
  by (auto simp: prefix_def)

lemma rate_limit_only_on_updates:
  assumes "filter is_rate_limit (executed (handle b req s)) \<noteq> []"
  shows "route_matches patch_update req \<or> route_matches patch_update_password req \<or>
         route_matches patch_update_username req \<or> route_matches put_update_avatar req"
proof (cases "dispatch req")
  case None
  with assms show ?thesis by (simp add: handle_from_dispatch_none)
next
  case (Some rt)
  then have rt: "rt \<in> set router" and m: "route_matches rt req"
    by (auto simp: dispatch_def find_Some_iff)
  have "prefix (executed (handle b req s)) (route_stack rt)"
    unfolding unique_route_run[OF taken_alone[OF rt m]] by (rule run_stack_prefix)
  with assms have f: "filter is_rate_limit (route_stack rt) \<noteq> []"
    using prefix_no_rate_limit by blast
  have nl: "filter is_rate_limit (route_stack get_user) = []"
    "filter is_rate_limit (route_stack get_search) = []"
    "filter is_rate_limit (route_stack delete_user) = []"
    "filter is_rate_limit (route_stack post_follow) = []"
    "filter is_rate_limit (route_stack delete_unfollow) = []"
    by (simp_all add: route_defs)
  from rt have "rt = get_user \<or> rt = get_search \<or> rt = patch_update \<or>
      rt = patch_update_password \<or> rt = patch_update_username \<or> rt = put_update_avatar \<or>
      rt = delete_user \<or> rt = post_follow \<or> rt = delete_unfollow"
    unfolding router_def by simp
  with f nl have "rt = patch_update \<or> rt = patch_update_password \<or>
      rt = patch_update_username \<or> rt = put_update_avatar"
    by auto
  with m show ?thesis by blast
qed

lemma run_stack_single: "executed (run_stack b req [h] s) = [h]"
  by (cases "b h req s") (auto split: outcome.splits simp: Let_def)

section \<open>The claims about the router\<close>

text \<open>
  Claim C1. On each of the four routes that change a profile (PATCH /:id/update,
  PATCH /:id/update/password, PATCH /:id/update/username, PUT /:id/update/avatar) the chain
  runs in exactly this order: the route's own rate limit, the permission check, the
  existence check, and only then the controller. For every numeric id the four routes take
  the four requests named. For every request that one of them takes, whatever the handlers
  do and whatever the starting world: the request is dispatched to that route, the handlers
  that run are an initial part of its chain beginning with the rate limit, and when the
  three middlewares pass the whole chain runs, the controller last.
\<close>

theorem update_routes_run_in_order:
  assumes "numeric uid"
  shows
    "route_matches patch_update
       \<lparr>req_method = PATCH, req_path = ''/'' @ uid @ ''/update''\<rparr> \<and>
     route_matches patch_update_password
       \<lparr>req_method = PATCH, req_path = ''/'' @ uid @ ''/update/password''\<rparr> \<and>
     route_matches patch_update_username
       \<lparr>req_method = PATCH, req_path = ''/'' @ uid @ ''/update/username''\<rparr> \<and>
     route_matches put_update_avatar
       \<lparr>req_method = PUT, req_path = ''/'' @ uid @ ''/update/avatar''\<rparr> \<and>
     (route_matches patch_update req \<longrightarrow>
        dispatch req = Some patch_update \<and>
        runs_in_order (handle b req s)
          [rateLimit_updateProfile, userMiddleware_checkPermissions,
           userMiddleware_checkIfExists, userController_update] \<and>
        (all_pass b req
           [rateLimit_updateProfile, userMiddleware_checkPermissions, userMiddleware_checkIfExists] s
         \<longrightarrow> executed (handle b req s) =
           [rateLimit_updateProfile, userMiddleware_checkPermissions,
            userMiddleware_checkIfExists, userController_update])) \<and>
     (route_matches patch_update_password req \<longrightarrow>
        dispatch req = Some patch_update_password \<and>
        runs_in_order (handle b req s)
          [rateLimit_updatePassword, userMiddleware_checkPermissions,
           userMiddleware_checkIfExists, userController_updatePassword] \<and>
        (all_pass b req
           [rateLimit_updatePassword, userMiddleware_checkPermissions, userMiddleware_checkIfExists] s
         \<longrightarrow> executed (handle b req s) =
           [rateLimit_updatePassword, userMiddleware_checkPermissions,
            userMiddleware_checkIfExists, userController_updatePassword])) \<and>
     (route_matches patch_update_username req \<longrightarrow>
        dispatch req = Some patch_update_username \<and>
        runs_in_order (handle b req s)
          [rateLimit_updateUsername, userMiddleware_checkPermissions,
           userMiddleware_checkIfExists, userController_updateUsername] \<and>
        (all_pass b req
           [rateLimit_updateUsername, userMiddleware_checkPermissions, userMiddleware_checkIfExists] s
         \<longrightarrow> executed (handle b req s) =
           [rateLimit_updateUsername, userMiddleware_checkPermissions,
            userMiddleware_checkIfExists, userController_updateUsername])) \<and>
     (route_matches put_update_avatar req \<longrightarrow>
        dispatch req = Some put_update_avatar \<and>
        runs_in_order (handle b req s)
          [rateLimit_updateAvatar, userMiddleware_checkPermissions,
           userMiddleware_checkIfExists, userController_updateAvatar] \<and>
        (all_pass b req
           [rateLimit_updateAvatar, userMiddleware_checkPermissions, userMiddleware_checkIfExists] s
         \<longrightarrow> executed (handle b req s) =
           [rateLimit_updateAvatar, userMiddleware_checkPermissions,
            userMiddleware_checkIfExists, userController_updateAvatar]))"
proof -
  have s1: "route_stack patch_update =
      [rateLimit_updateProfile, userMiddleware_checkPermissions, userMiddleware_checkIfExists]
      @ [userController_update]"
    by (simp add: patch_update_def)
  have r1: "patch_update \<in> set router" by (simp add: router_def)
  have s2: "route_stack patch_update_password =
      [rateLimit_updatePassword, userMiddleware_checkPermissions, userMiddleware_checkIfExists]
      @ [userController_updatePassword]"
    by (simp add: patch_update_password_def)
  have r2: "patch_update_password \<in> set router" by (simp add: router_def)
  have s3: "route_stack patch_update_username =
      [rateLimit_updateUsername, userMiddleware_checkPermissions, userMiddleware_checkIfExists]
      @ [userController_updateUsername]"
    by (simp add: patch_update_username_def)
  have r3: "patch_update_username \<in> set router" by (simp add: router_def)
  have s4: "route_stack put_update_avatar =
      [rateLimit_updateAvatar, userMiddleware_checkPermissions, userMiddleware_checkIfExists]
      @ [userController_updateAvatar]"
    by (simp add: put_update_avatar_def)
  have r4: "put_update_avatar \<in> set router" by (simp add: router_def)
  show ?thesis
    using patch_update_takes[OF assms] route_chain[OF r1 _ s1, of req b s]
      patch_update_password_takes[OF assms] route_chain[OF r2 _ s2, of req b s]
      patch_update_username_takes[OF assms] route_chain[OF r3 _ s3, of req b s]
      put_update_avatar_takes[OF assms] route_chain[OF r4 _ s4, of req b s]
    by simp
qed

text \<open>The theorem of C1 at id 42, with handlers that all pass.\<close>

theorem update_routes_run_in_order_witness:
  "numeric ''42'' \<and>
   route_matches patch_update \<lparr>req_method = PATCH, req_path = ''/42/update''\<rparr> \<and>
   all_pass permissive \<lparr>req_method = PATCH, req_path = ''/42/update''\<rparr>
     [rateLimit_updateProfile, userMiddleware_checkPermissions, userMiddleware_checkIfExists] () \<and>
   executed (handle permissive \<lparr>req_method = PATCH, req_path = ''/42/update''\<rparr> ()) =
     [rateLimit_updateProfile, userMiddleware_checkPermissions,
      userMiddleware_checkIfExists, userController_update] \<and>
   route_matches patch_update_password \<lparr>req_method = PATCH, req_path = ''/42/update/password''\<rparr> \<and>
   all_pass permissive \<lparr>req_method = PATCH, req_path = ''/42/update/password''\<rparr>
     [rateLimit_updatePassword, userMiddleware_checkPermissions, userMiddleware_checkIfExists] () \<and>
   executed (handle permissive \<lparr>req_method = PATCH, req_path = ''/42/update/password''\<rparr> ()) =
     [rateLimit_updatePassword, userMiddleware_checkPermissions,
      userMiddleware_checkIfExists, userController_updatePassword] \<and>
   route_matches patch_update_username \<lparr>req_method = PATCH, req_path = ''/42/update/username''\<rparr> \<and>
   all_pass permissive \<lparr>req_method = PATCH, req_path = ''/42/update/username''\<rparr>
     [rateLimit_updateUsername, userMiddleware_checkPermissions, userMiddleware_checkIfExists] () \<and>
   executed (handle permissive \<lparr>req_method = PATCH, req_path = ''/42/update/username''\<rparr> ()) =
     [rateLimit_updateUsername, userMiddleware_checkPermissions,
      userMiddleware_checkIfExists, userController_updateUsername] \<and>
   route_matches put_update_avatar \<lparr>req_method = PUT, req_path = ''/42/update/avatar''\<rparr> \<and>
   all_pass permissive \<lparr>req_method = PUT, req_path = ''/42/update/avatar''\<rparr>
     [rateLimit_updateAvatar, userMiddleware_checkPermissions, userMiddleware_checkIfExists] () \<and>
   executed (handle permissive \<lparr>req_method = PUT, req_path = ''/42/update/avatar''\<rparr> ()) =
     [rateLimit_updateAvatar, userMiddleware_checkPermissions,
      userMiddleware_checkIfExists, userController_updateAvatar]"
proof -
  have n: "numeric ''42''" by (simp add: numeric_def is_digit_def)
  have p: "all_pass permissive req
     [rl, userMiddleware_checkPermissions, userMiddleware_checkIfExists] ()"
    if "is_rate_limit rl" for rl req
    using that by (simp add: permissive_def is_middleware_def)
  show ?thesis
    using n p[of rateLimit_updateProfile] p[of rateLimit_updatePassword]
      p[of rateLimit_updateUsername] p[of rateLimit_updateAvatar]
      update_routes_run_in_order[OF n, where b = permissive and s = "()" and
        req = "\<lparr>req_method = PATCH, req_path = ''/42/update''\<rparr>"]
      update_routes_run_in_order[OF n, where b = permissive and s = "()" and
        req = "\<lparr>req_method = PATCH, req_path = ''/42/update/password''\<rparr>"]
      update_routes_run_in_order[OF n, where b = permissive and s = "()" and
        req = "\<lparr>req_method = PATCH, req_path = ''/42/update/username''\<rparr>"]
      update_routes_run_in_order[OF n, where b = permissive and s = "()" and
        req = "\<lparr>req_method = PUT, req_path = ''/42/update/avatar''\<rparr>"]
    by simp
qed

text \<open>
  Claim C3, as stated: a GET request with path /n is taken by the user-detail route exactly
  when the segment n is a non-empty sequence of decimal digits, and for a segment with a
  character that is not a digit the detail route does not match and the request falls
  through, as a 404 would. The last part fails for the segment "search": it has no digit,
  the detail route does not match, and the request is taken by the search route.
\<close>

theorem detail_route_fall_through_counterexample:
  "CHR ''/'' \<notin> set ''search'' \<and> \<not> list_all is_digit ''search'' \<and>
   \<not> route_matches get_user \<lparr>req_method = GET, req_path = ''/search''\<rparr> \<and>
   dispatch \<lparr>req_method = GET, req_path = ''/search''\<rparr> = Some get_search \<and>
   dispatch \<lparr>req_method = GET, req_path = ''/search''\<rparr> \<noteq> None"
proof -
  have s: "CHR ''/'' \<notin> set ''search''" by simp
  have t: "map to_lower ''search'' = ''search''" by (simp add: to_lower_def)
  have d: "\<not> list_all is_digit ''search''" by (simp add: is_digit_def)
  then have n: "\<not> numeric ''search''" by (simp add: numeric_def)
  have m: "\<not> route_matches get_user \<lparr>req_method = GET, req_path = ''/search''\<rparr>"
    using match_single_id[OF s, of "''id''"] n
    by (simp add: route_matches_def get_user_def del: match_path.simps)
  have "dispatch \<lparr>req_method = GET, req_path = ''/search''\<rparr> = Some get_search"
    using dispatch_get_segment[OF s] n t by simp
  with s d m show ?thesis by simp
qed

text \<open>
  Claim C3, amended: for a segment n (a string without a slash), GET /n is taken by the
  user-detail route exactly when n is a non-empty sequence of decimal digits. When n has a
  character that is not a digit, the detail route does not match; the request is then
  taken by the search route when n is the word "search" in any letter case, and by no
  route of this router otherwise, in which case no handler runs and the request leaves
  the router unanswered.
\<close>

theorem detail_route_numeric_only:
  assumes "CHR ''/'' \<notin> set n"
  shows
    "(route_matches get_user \<lparr>req_method = GET, req_path = ''/'' @ n\<rparr> \<longleftrightarrow> numeric n) \<and>
     (\<not> list_all is_digit n \<longrightarrow>
        \<not> route_matches get_user \<lparr>req_method = GET, req_path = ''/'' @ n\<rparr> \<and>
        dispatch \<lparr>req_method = GET, req_path = ''/'' @ n\<rparr> =
          (if map to_lower n = ''search'' then Some get_search else None) \<and>
        (map to_lower n \<noteq> ''search'' \<longrightarrow>
           handle b \<lparr>req_method = GET, req_path = ''/'' @ n\<rparr> s =
             \<lparr>executed = [], reply = None, world = s\<rparr>))"
proof -
  have m: "route_matches get_user \<lparr>req_method = GET, req_path = ''/'' @ n\<rparr> \<longleftrightarrow> numeric n"
    using match_single_id[OF assms, of "''id''"]
    by (simp add: route_matches_def get_user_def handles_method_def del: match_path.simps)
  have d: "dispatch \<lparr>req_method = GET, req_path = ''/'' @ n\<rparr> =
             (if map to_lower n = ''search'' then Some get_search else None)"
    if "\<not> list_all is_digit n"
    using dispatch_get_segment[OF assms] that by (simp add: numeric_def)
  have h: "handle b \<lparr>req_method = GET, req_path = ''/'' @ n\<rparr> s =
             \<lparr>executed = [], reply = None, world = s\<rparr>"
    if "\<not> list_all is_digit n" "map to_lower n \<noteq> ''search''"
    using d[OF that(1)] that(2) by (simp add: handle_from_dispatch_none)
  from m d h show ?thesis by (simp add: numeric_def)
qed

text \<open>
  The theorem of C3 at the segments "4a" (not numeric, not "search") and "42".
\<close>

theorem detail_route_numeric_only_witness:
  "CHR ''/'' \<notin> set ''4a'' \<and> \<not> list_all is_digit ''4a'' \<and> map to_lower ''4a'' \<noteq> ''search'' \<and>
   \<not> route_matches get_user \<lparr>req_method = GET, req_path = ''/4a''\<rparr> \<and>
   dispatch \<lparr>req_method = GET, req_path = ''/4a''\<rparr> = None \<and>
   handle permissive \<lparr>req_method = GET, req_path = ''/4a''\<rparr> () =
     \<lparr>executed = [], reply = None, world = ()\<rparr> \<and>
   CHR ''/'' \<notin> set ''42'' \<and> numeric ''42'' \<and>
   route_matches get_user \<lparr>req_method = GET, req_path = ''/42''\<rparr>"
proof -
  have a: "CHR ''/'' \<notin> set ''4a''" and b: "CHR ''/'' \<notin> set ''42''" by simp_all
  have c: "\<not> list_all is_digit ''4a''" and d: "numeric ''42''"
    by (simp_all add: numeric_def is_digit_def)
  show ?thesis
    using a b c d detail_route_numeric_only[OF a, of permissive "()"]
      detail_route_numeric_only[OF b, of permissive "()"]
    by (simp add: numeric_def is_digit_def to_lower_def)
qed

text \<open>
  Claim C4. A request POST /a/follow/b is taken by the follow route, and a request
  DELETE /a/unfollow/b by the unfollow route, exactly when both segments a and b are
  non-empty sequences of decimal digits; when either has a character that is not a digit,
  the route does not match.
\<close>

theorem follow_routes_numeric_only:
  assumes "CHR ''/'' \<notin> set a" and "CHR ''/'' \<notin> set b"
  shows
    "(route_matches post_follow \<lparr>req_method = POST, req_path = ''/'' @ a @ ''/follow/'' @ b\<rparr>
        \<longleftrightarrow> numeric a \<and> numeric b) \<and>
     (route_matches delete_unfollow
        \<lparr>req_method = DELETE, req_path = ''/'' @ a @ ''/unfollow/'' @ b\<rparr>
        \<longleftrightarrow> numeric a \<and> numeric b) \<and>
     (\<not> list_all is_digit a \<or> \<not> list_all is_digit b \<longrightarrow>
        \<not> route_matches post_follow
            \<lparr>req_method = POST, req_path = ''/'' @ a @ ''/follow/'' @ b\<rparr> \<and>
        \<not> route_matches delete_unfollow
            \<lparr>req_method = DELETE, req_path = ''/'' @ a @ ''/unfollow/'' @ b\<rparr>)"
proof -
  have f: "route_matches post_follow \<lparr>req_method = POST, req_path = ''/'' @ a @ ''/follow/'' @ b\<rparr>
        \<longleftrightarrow> numeric a \<and> numeric b"
    using match_two_ids[OF assms, of "''id''" "''follow''" "''toFollowId''"]
    by (simp add: route_matches_def post_follow_def handles_method_def del: match_path.simps)
  have u: "route_matches delete_unfollow
        \<lparr>req_method = DELETE, req_path = ''/'' @ a @ ''/unfollow/'' @ b\<rparr>
        \<longleftrightarrow> numeric a \<and> numeric b"
    using match_two_ids[OF assms, of "''id''" "''unfollow''" "''toUnfollowId''"]
    by (simp add: route_matches_def delete_unfollow_def handles_method_def del: match_path.simps)
  from f u show ?thesis by (auto simp: numeric_def)
qed

text \<open>
  The theorem of C4 at /5/follow/77 and /5/unfollow/77, which match, and at
  /5/follow/7x and /5/unfollow/7x, which do not.
\<close>

theorem follow_routes_numeric_only_witness:
  "CHR ''/'' \<notin> set ''5'' \<and> CHR ''/'' \<notin> set ''77'' \<and> numeric ''5'' \<and> numeric ''77'' \<and>
   route_matches post_follow \<lparr>req_method = POST, req_path = ''/5/follow/77''\<rparr> \<and>
   route_matches delete_unfollow \<lparr>req_method = DELETE, req_path = ''/5/unfollow/77''\<rparr> \<and>
   CHR ''/'' \<notin> set ''7x'' \<and> \<not> list_all is_digit ''7x'' \<and>
   \<not> route_matches post_follow \<lparr>req_method = POST, req_path = ''/5/follow/7x''\<rparr> \<and>
   \<not> route_matches delete_unfollow \<lparr>req_method = DELETE, req_path = ''/5/unfollow/7x''\<rparr>"
proof -
  have a: "CHR ''/'' \<notin> set ''5''" and b: "CHR ''/'' \<notin> set ''77''"
    and c: "CHR ''/'' \<notin> set ''7x''" by simp_all
  have d: "numeric ''5''" "numeric ''77''" "\<not> list_all is_digit ''7x''"
    by (simp_all add: numeric_def is_digit_def)
  show ?thesis
    using a b c d follow_routes_numeric_only[OF a b] follow_routes_numeric_only[OF a c]
    by (simp add: numeric_def is_digit_def)
qed

text \<open>
  Claim C5. The route DELETE /:id/delete runs the permission check, then the existence
  check, then its handler, and has no rate limit: for every request it takes, no rate
  limit is among the handlers that run. In the whole router the only routes with a rate
  limit are the four updates of profile, password, username and avatar, each with its own,
  and whenever a rate limit runs the request was taken by one of these four.
\<close>

theorem delete_route_has_no_rate_limit:
  assumes "numeric uid"
  shows
    "route_matches delete_user \<lparr>req_method = DELETE, req_path = ''/'' @ uid @ ''/delete''\<rparr> \<and>
     route_stack delete_user =
       [userMiddleware_checkPermissions, userMiddleware_checkIfExists, userController_delete] \<and>
     (route_matches delete_user req \<longrightarrow>
        dispatch req = Some delete_user \<and>
        runs_in_order (handle b req s)
          [userMiddleware_checkPermissions, userMiddleware_checkIfExists,
           userController_delete] \<and>
        (all_pass b req [userMiddleware_checkPermissions, userMiddleware_checkIfExists] s
         \<longrightarrow> executed (handle b req s) =
           [userMiddleware_checkPermissions, userMiddleware_checkIfExists,
            userController_delete]) \<and>
        filter is_rate_limit (executed (handle b req s)) = []) \<and>
     map (\<lambda>rt. filter is_rate_limit (route_stack rt)) router =
       [[], [], [rateLimit_updateProfile], [rateLimit_updatePassword],
        [rateLimit_updateUsername], [rateLimit_updateAvatar], [], [], []] \<and>
     (filter is_rate_limit (executed (handle b req s)) \<noteq> [] \<longrightarrow>
        route_matches patch_update req \<or> route_matches patch_update_password req \<or>
        route_matches patch_update_username req \<or> route_matches put_update_avatar req)"
proof -
  let ?chain = "[userMiddleware_checkPermissions, userMiddleware_checkIfExists, userController_delete]"
  have st: "route_stack delete_user =
      [userMiddleware_checkPermissions, userMiddleware_checkIfExists] @ [userController_delete]"
    by (simp add: delete_user_def)
  have r: "delete_user \<in> set router" by (simp add: router_def)
  have nr: "filter is_rate_limit (executed (handle b req s)) = []"
    if m: "route_matches delete_user req"
  proof -
    from route_chain[OF r m st, of b s] have "prefix (executed (handle b req s)) ?chain"
      by (simp add: runs_in_order_def)
    then show ?thesis by (rule prefix_no_rate_limit) simp
  qed
  have tab: "map (\<lambda>rt. filter is_rate_limit (route_stack rt)) router =
       [[], [], [rateLimit_updateProfile], [rateLimit_updatePassword],
        [rateLimit_updateUsername], [rateLimit_updateAvatar], [], [], []]"
    by (simp add: router_def route_defs)
  show ?thesis
    using delete_user_takes[OF assms] st route_chain[OF r _ st, of req b s] nr tab
      rate_limit_only_on_updates[of b req s]
    by simp
qed

text \<open>
  The theorem of C5 at DELETE /7/delete, with handlers that all pass.
\<close>

theorem delete_route_has_no_rate_limit_witness:
  "numeric ''7'' \<and>
   route_matches delete_user \<lparr>req_method = DELETE, req_path = ''/7/delete''\<rparr> \<and>
   all_pass permissive \<lparr>req_method = DELETE, req_path = ''/7/delete''\<rparr>
     [userMiddleware_checkPermissions, userMiddleware_checkIfExists] () \<and>
   dispatch \<lparr>req_method = DELETE, req_path = ''/7/delete''\<rparr> = Some delete_user \<and>
   executed (handle permissive \<lparr>req_method = DELETE, req_path = ''/7/delete''\<rparr> ()) =
     [userMiddleware_checkPermissions, userMiddleware_checkIfExists, userController_delete] \<and>
   filter is_rate_limit
     (executed (handle permissive \<lparr>req_method = DELETE, req_path = ''/7/delete''\<rparr> ())) = []"
proof -
  have n: "numeric ''7''" by (simp add: numeric_def is_digit_def)
  have p: "all_pass permissive \<lparr>req_method = DELETE, req_path = ''/7/delete''\<rparr>
     [userMiddleware_checkPermissions, userMiddleware_checkIfExists] ()"
    by (simp add: permissive_def is_middleware_def)
  show ?thesis
    using n p
      delete_route_has_no_rate_limit[OF n, where b = permissive and s = "()" and
        req = "\<lparr>req_method = DELETE, req_path = ''/7/delete''\<rparr>"]
    by simp
qed

text \<open>
  Claim C6. The route GET /:id has the existence check as its only middleware. For every
  request it takes, neither the permission check nor a rate limit runs, and the handler
  \<open>userController_getInformations\<close> runs whenever the existence check passes.
\<close>

theorem detail_route_checks_existence_only:
  assumes "route_matches get_user req"
  shows
    "dispatch req = Some get_user \<and>
     route_stack get_user = [userMiddleware_checkIfExists, userController_getInformations] \<and>
     runs_in_order (handle b req s)
       [userMiddleware_checkIfExists, userController_getInformations] \<and>
     (fst (b userMiddleware_checkIfExists req s) = Next \<longrightarrow>
        executed (handle b req s) =
          [userMiddleware_checkIfExists, userController_getInformations]) \<and>
     userMiddleware_checkPermissions \<notin> set (executed (handle b req s)) \<and>
     filter is_rate_limit (executed (handle b req s)) = []"
proof -
  let ?chain = "[userMiddleware_checkIfExists, userController_getInformations]"
  have st: "route_stack get_user = [userMiddleware_checkIfExists] @ [userController_getInformations]"
    by (simp add: get_user_def)
  note c = unique_route_chain[OF get_user_taken_alone[OF assms] st, of b s]
  from c have pre: "prefix (executed (handle b req s)) ?chain"
    by (simp add: runs_in_order_def)
  then have nr: "filter is_rate_limit (executed (handle b req s)) = []"
    by (rule prefix_no_rate_limit) simp
  from pre have "set (executed (handle b req s)) \<subseteq> set ?chain"
    by (rule set_mono_prefix)
  then have np: "userMiddleware_checkPermissions \<notin> set (executed (handle b req s))"
    by auto
  have "all_pass b req [userMiddleware_checkIfExists] s"
    if "fst (b userMiddleware_checkIfExists req s) = Next"
    using that by (cases "b userMiddleware_checkIfExists req s") simp
  with c st nr np show ?thesis by simp
qed

text \<open>
  The theorem of C6 at GET /42, with a permission check that would reject: the handler
  is reached all the same, since that check is not on this route.
\<close>

theorem detail_route_checks_existence_only_witness:
  "route_matches get_user \<lparr>req_method = GET, req_path = ''/42''\<rparr> \<and>
   fst (forbidding userMiddleware_checkIfExists \<lparr>req_method = GET, req_path = ''/42''\<rparr> ()) = Next \<and>
   executed (handle forbidding \<lparr>req_method = GET, req_path = ''/42''\<rparr> ()) =
     [userMiddleware_checkIfExists, userController_getInformations]"
proof -
  have m: "route_matches get_user \<lparr>req_method = GET, req_path = ''/42''\<rparr>"
    by (simp add: route_matches_def get_user_def handles_method_def is_digit_def)
  have p: "fst (forbidding userMiddleware_checkIfExists \<lparr>req_method = GET, req_path = ''/42''\<rparr> ()) = Next"
    by (simp add: forbidding_def permissive_def is_middleware_def)
  show ?thesis
    using m p detail_route_checks_existence_only[OF m, of forbidding "()"]
    by simp
qed

text \<open>
  Claim C7. On every route and for every request, when a middleware of the chain rejects
  with an error response, no later middleware of the chain and not the controller runs, and
  that response is what the caller gets; nothing is retried. Here \<open>rt\<close> is the route
  that takes the request, \<open>pre\<close> are the handlers before the rejecting one, which all
  passed, and \<open>post\<close> the handlers after it.
\<close>

theorem rejection_ends_the_chain:
  assumes "dispatch req = Some rt"
    and "route_stack rt = pre @ h # post"
    and "run_stack b req pre s = \<lparr>executed = pre, reply = None, world = s'\<rparr>"
    and "b h req s' = (Respond resp, s'')"
  shows "handle b req s = \<lparr>executed = pre @ [h], reply = Some resp, world = s''\<rparr> \<and>
         set post \<inter> set (executed (handle b req s)) = {}"
proof -
  have r: "run_stack b req (route_stack rt) s =
             \<lparr>executed = pre @ [h], reply = Some resp, world = s''\<rparr>"
    unfolding assms(2) using assms(3,4) by (rule run_stack_reject)
  have f: "find (\<lambda>rt. route_matches rt req) router = Some rt"
    using assms(1) by (simp add: dispatch_def)
  have h: "handle b req s = \<lparr>executed = pre @ [h], reply = Some resp, world = s''\<rparr>"
    unfolding handle_def using handle_from_first_reply[OF f, of b s resp] r by simp
  from f have "rt \<in> set router"
    by (auto simp: find_Some_iff)
  then have "distinct (pre @ h # post)"
    using stacks_distinct[of rt] assms(2) by simp
  then have "set post \<inter> set (pre @ [h]) = {}" by auto
  with h show ?thesis by simp
qed

text \<open>
  The theorem of C7 at PATCH /42/update/password, where the rate limit passes and the
  permission check rejects with 403.
\<close>

theorem rejection_ends_the_chain_witness:
  "dispatch \<lparr>req_method = PATCH, req_path = ''/42/update/password''\<rparr> = Some patch_update_password \<and>
   route_stack patch_update_password =
     [rateLimit_updatePassword] @ userMiddleware_checkPermissions #
     [userMiddleware_checkIfExists, userController_updatePassword] \<and>
   run_stack forbidding \<lparr>req_method = PATCH, req_path = ''/42/update/password''\<rparr>
     [rateLimit_updatePassword] () =
     \<lparr>executed = [rateLimit_updatePassword], reply = None, world = ()\<rparr> \<and>
   forbidding userMiddleware_checkPermissions
     \<lparr>req_method = PATCH, req_path = ''/42/update/password''\<rparr> () =
     (Respond forbidden_response, ()) \<and>
   handle forbidding \<lparr>req_method = PATCH, req_path = ''/42/update/password''\<rparr> () =
     \<lparr>executed = [rateLimit_updatePassword, userMiddleware_checkPermissions],
      reply = Some forbidden_response, world = ()\<rparr>"
proof -
  let ?req = "\<lparr>req_method = PATCH, req_path = ''/42/update/password''\<rparr>"
  have n: "numeric ''42''" by (simp add: numeric_def is_digit_def)
  have d: "dispatch ?req = Some patch_update_password"
    using dispatch_filter[OF taken_alone[OF _ patch_update_password_takes[OF n]]]
    by (simp add: router_def)
  have st: "route_stack patch_update_password =
     [rateLimit_updatePassword] @ userMiddleware_checkPermissions #
     [userMiddleware_checkIfExists, userController_updatePassword]"
    by (simp add: patch_update_password_def)
  have p: "run_stack forbidding ?req [rateLimit_updatePassword] () =
     \<lparr>executed = [rateLimit_updatePassword], reply = None, world = ()\<rparr>"
    by (simp add: forbidding_def permissive_def is_middleware_def)
  have f: "forbidding userMiddleware_checkPermissions ?req () = (Respond forbidden_response, ())"
    by (simp add: forbidding_def)
  show ?thesis
    using d st p f rejection_ends_the_chain[OF d st p f]
    by simp
qed

text \<open>
  Claim C10. A GET request with path /search always reaches the search handler, with no
  middleware before it, and is never taken by the user-detail route, although that route
  is registered first: "search" is not a sequence of digits.
\<close>

theorem search_path_reaches_search_handler:
  "dispatch \<lparr>req_method = GET, req_path = ''/search''\<rparr> = Some get_search \<and>
   route_stack get_search = [searchController_searchUserByName] \<and>
   executed (handle b \<lparr>req_method = GET, req_path = ''/search''\<rparr> s) =
     [searchController_searchUserByName] \<and>
   \<not> match_path (route_path get_user) ''/search'' \<and>
   \<not> route_matches get_user \<lparr>req_method = GET, req_path = ''/search''\<rparr> \<and>
   router ! 0 = get_user \<and> router ! 1 = get_search"
proof -
  let ?req = "\<lparr>req_method = GET, req_path = ''/search''\<rparr>"
  have d: "dispatch ?req = Some get_search"
    using get_search_taken_alone[OF get_search_takes] by (rule dispatch_filter)
  have st: "route_stack get_search = [searchController_searchUserByName]"
    by (simp add: get_search_def)
  have e: "executed (handle b ?req s) = [searchController_searchUserByName]"
    unfolding unique_route_run[OF get_search_taken_alone[OF get_search_takes]] st
    by (rule run_stack_single)
  have m: "\<not> match_path (route_path get_user) ''/search''"
    by (simp add: get_user_def is_digit_def)
  then have r: "\<not> route_matches get_user ?req"
    by (simp add: route_matches_def)
  have o: "router ! 0 = get_user \<and> router ! 1 = get_search"
    by (simp add: router_def)
  from d st e m r o show ?thesis by blast
qed

section \<open>Facts about rendering a date\<close>

lemma tokenize_fr_pattern:
  "tokenize fr_pattern =
     [Letters (CHR ''d'') 4, Plain (CHR '' ''), Letters (CHR ''D'') 2, Plain (CHR '' ''),
      Letters (CHR ''M'') 4, Plain (CHR '' ''), Letters (CHR ''Y'') 4, Plain (CHR '' ''),
      Plain (CHR 0xE0), Plain (CHR '' ''), Letters (CHR ''H'') 2, Plain (CHR '':''),
      Letters (CHR ''m'') 2]"
  by (simp add: fr_pattern_def a_grave_def max_run_def)

lemma tokenize_default_pattern:
  "tokenize default_pattern =
     [Letters (CHR ''d'') 4, Plain (CHR '' ''), Letters (CHR ''D'') 2, Plain (CHR '' ''),
      Letters (CHR ''M'') 4, Plain (CHR '' ''), Letters (CHR ''Y'') 4, Plain (CHR '',''),
      Plain (CHR '' ''), Letters (CHR ''h'') 2, Plain (CHR '':''), Letters (CHR ''m'') 2,
      Plain (CHR '' ''), Letters (CHR ''A'') 1]"
  by (simp add: default_pattern_def max_run_def)

lemma digit_char_in: "digit_char n \<in> set ''0123456789''"
  unfolding digit_char_def by (rule nth_mem) simp

lemma show_nat_small: "n < 10 \<Longrightarrow> show_nat n = [digit_char n]"
  by (subst show_nat.simps) simp

lemma show_nat_big: "\<not> n < 10 \<Longrightarrow> show_nat n = show_nat (n div 10) @ [digit_char n]"
  by (subst show_nat.simps) simp

lemma show_nat_chars: "c \<in> set (show_nat n) \<Longrightarrow> c \<in> set ''0123456789''"
proof (induction n rule: show_nat.induct)
  case (1 n)
  show ?case
  proof (cases "n < 10")
    case True
    with 1(2) show_nat_small[of n] have "c = digit_char n" by simp
    then show ?thesis by (simp only: digit_char_in)
  next
    case False
    with 1(2) show_nat_big[of n] have "c \<in> set (show_nat (n div 10)) \<or> c = digit_char n"
      by auto
    then show ?thesis
    proof
      assume "c \<in> set (show_nat (n div 10))"
      with False show ?thesis by (rule 1(1))
    next
      assume "c = digit_char n"
      then show ?thesis by (simp only: digit_char_in)
    qed
  qed
qed

lemma digits_in_number_chars: "c \<in> set ''0123456789'' \<Longrightarrow> c \<in> set ''-0123456789''"
  by simp

lemma show_int_chars: "c \<in> set (show_int i) \<Longrightarrow> c \<in> set ''-0123456789''"
proof (cases "i < 0")
  case True
  assume "c \<in> set (show_int i)"
  with True have "c = CHR ''-'' \<or> c \<in> set (show_nat (nat (- i)))"
    by (simp add: show_int_def)
  then show ?thesis
  proof
    assume "c = CHR ''-''" then show ?thesis by simp
  next
    assume "c \<in> set (show_nat (nat (- i)))"
    then show ?thesis by (intro digits_in_number_chars show_nat_chars)
  qed
next
  case False
  assume "c \<in> set (show_int i)"
  with False have "c \<in> set (show_nat (nat i))"
    by (simp add: show_int_def)
  then show ?thesis by (intro digits_in_number_chars show_nat_chars)
qed

lemma pad_start_chars: "c \<in> set (pad_start k s) \<Longrightarrow> c = CHR ''0'' \<or> c \<in> set s"
  by (auto simp: pad_start_def)

lemma padded_nat_chars: "c \<in> set (pad_start k (show_nat n)) \<Longrightarrow> c \<in> set ''-0123456789''"
proof -
  assume "c \<in> set (pad_start k (show_nat n))"
  then have "c = CHR ''0'' \<or> c \<in> set (show_nat n)" by (rule pad_start_chars)
  then show ?thesis
  proof
    assume "c = CHR ''0''" then show ?thesis by simp
  next
    assume "c \<in> set (show_nat n)"
    then show ?thesis by (intro digits_in_number_chars show_nat_chars)
  qed
qed

lemma padded_int_chars: "c \<in> set (pad_start k (show_int i)) \<Longrightarrow> c \<in> set ''-0123456789''"
proof -
  assume "c \<in> set (pad_start k (show_int i))"
  then have "c = CHR ''0'' \<or> c \<in> set (show_int i)" by (rule pad_start_chars)
  then show ?thesis
  proof
    assume "c = CHR ''0''" then show ?thesis by simp
  next
    assume "c \<in> set (show_int i)"
    then show ?thesis by (rule show_int_chars)
  qed
qed

lemma fr_weekdays_no_capital:
  "CHR ''A'' \<notin> set (weekdays Fr w) \<and> CHR ''P'' \<notin> set (weekdays Fr w)"
  by (cases w) simp_all

lemma fr_months_no_capital:
  "CHR ''A'' \<notin> set (months Fr m) \<and> CHR ''P'' \<notin> set (months Fr m)"
  by (cases m) simp_all

lemma weekdays_no_a_grave: "CHR 0xE0 \<notin> set (weekdays l w)"
  by (cases l; cases w) simp_all

lemma months_no_a_grave: "CHR 0xE0 \<notin> set (months l m)"
  by (cases l; cases m) simp_all

lemma numbers_no_letter:
  assumes "c \<notin> set ''-0123456789''"
  shows "c \<notin> set (pad_start k (show_nat n))" "c \<notin> set (pad_start k (show_int i))"
  using assms padded_nat_chars[of c k n] padded_int_chars[of c k i] by blast+

lemma meridiem_no_a_grave: "CHR 0xE0 \<notin> set (meridiem h)"
  by (simp add: meridiem_def)

lemma hour12_range: "1 \<le> hour12 h \<and> hour12 h \<le> 12"
proof -
  have "h mod 12 < 12" by simp
  then show ?thesis unfolding hour12_def by (cases "h mod 12 = 0") simp_all
qed

lemma render_fr:
  assumes "resolve env ''fr'' = Some Fr"
  shows "format (dayjs env) (Local_Time t) ''fr'' =
     Inr (weekdays Fr (weekday t) @ '' '' @ pad_start 2 (show_nat (day t)) @ '' '' @
          months Fr (month t) @ '' '' @ pad_start 4 (show_int (year t)) @ '' '' @
          [CHR 0xE0] @ '' '' @ pad_start 2 (show_nat (hour t)) @ '':'' @
          pad_start 2 (show_nat (minute t)))"
  using assms by (simp add: format_def dayjs_def tokenize_fr_pattern)

lemma render_default:
  assumes "language \<noteq> ''fr''" and "language \<noteq> []"
  shows "format (dayjs env) (Local_Time t) language =
     Inr (weekdays (case resolve env language of Some l \<Rightarrow> l | None \<Rightarrow> global_locale env)
            (weekday t) @ '' '' @ pad_start 2 (show_nat (day t)) @ '' '' @
          months (case resolve env language of Some l \<Rightarrow> l | None \<Rightarrow> global_locale env)
            (month t) @ '' '' @ pad_start 4 (show_int (year t)) @ '', '' @
          pad_start 2 (show_nat (hour12 (hour t))) @ '':'' @
          pad_start 2 (show_nat (minute t)) @ '' '' @ meridiem (hour t))"
  using assms
  by (cases "resolve env language") (simp_all add: format_def dayjs_def tokenize_default_pattern)

lemma no_capital_no_meridiem:
  assumes "CHR ''A'' \<notin> set s" and "CHR ''P'' \<notin> set s"
  shows "\<not> has_meridiem s"
proof
  assume "has_meridiem s"
  then have "set ''AM'' \<subseteq> set s \<or> set ''PM'' \<subseteq> set s"
    unfolding has_meridiem_def using set_mono_sublist by blast
  with assms show False by simp
qed

lemma ends_with_meridiem: "has_meridiem (s @ meridiem h)"
proof -
  have "sublist (meridiem h) (s @ meridiem h)" by (rule sublist_append_leftI)
  then show ?thesis by (simp add: has_meridiem_def meridiem_def split: if_splits)
qed

section \<open>The claims about the date helpers\<close>

text \<open>
  Claim C2, as stated: for every timestamp input, \<open>format\<close> with language "fr"
  returns a text rendered with the pattern "dddd DD MMMM YYYY \<open>a_grave\<close> HH:mm" (24-hour
  clock, with the accented letter and no AM/PM marker), and with every other language a
  text rendered with the pattern "dddd DD MMMM YYYY, hh:mm A" (12-hour clock, with an
  AM/PM marker and without the accented letter). This fails for a date that is not valid,
  which is rendered as "Invalid Date" whatever the pattern, and for the empty language,
  where \<^verbatim>\<open>.locale\<close> returns a string and the call of \<^verbatim>\<open>.format\<close> on it throws.
\<close>

theorem format_invalid_date_counterexample:
  "format (dayjs sample_env) Invalid_Date ''fr'' = Inr ''Invalid Date'' \<and>
   CHR 0xE0 \<notin> set ''Invalid Date'' \<and>
   [] \<noteq> ''fr'' \<and>
   format (dayjs sample_env) (Local_Time sample_moment) [] = Inl TypeError"
  by (simp add: format_def dayjs_def sample_env_def to_lower_def)

text \<open>
  Claim C2, amended: for every valid timestamp, \<open>format\<close> with language "fr"
  returns the French weekday, the day in two digits, the French month, the year in four
  digits, the accented letter and the time as HH:mm on the 24-hour clock; this text has
  the accented letter and neither AM nor PM. With every other language that is not empty
  it returns weekday, day, month and year in the locale the library finds for the
  language (the one new objects start with when it finds none), a comma, the time as
  hh:mm on the 12-hour clock, between 1 and 12, and AM or PM; this text has no accented
  letter \<open>a_grave\<close>. For a date that is not valid the result is "Invalid Date", and
  for the empty language the call throws a TypeError. The hypothesis says that the code
  "fr" finds the French locale, which line 2 of the source loads.
\<close>

theorem format_renders_valid_dates:
  assumes "resolve env ''fr'' = Some Fr"
  shows
    "(\<exists>out. format (dayjs env) (Local_Time t) ''fr'' = Inr out \<and>
        out = weekdays Fr (weekday t) @ '' '' @ pad_start 2 (show_nat (day t)) @ '' '' @
              months Fr (month t) @ '' '' @ pad_start 4 (show_int (year t)) @ '' '' @
              [CHR 0xE0] @ '' '' @ pad_start 2 (show_nat (hour t)) @ '':'' @
              pad_start 2 (show_nat (minute t)) \<and>
        CHR 0xE0 \<in> set out \<and> \<not> has_meridiem out) \<and>
     (language \<noteq> ''fr'' \<and> language \<noteq> [] \<longrightarrow>
        (\<exists>out l. format (dayjs env) (Local_Time t) language = Inr out \<and>
           l = (case resolve env language of Some l \<Rightarrow> l | None \<Rightarrow> global_locale env) \<and>
           out = weekdays l (weekday t) @ '' '' @ pad_start 2 (show_nat (day t)) @ '' '' @
                 months l (month t) @ '' '' @ pad_start 4 (show_int (year t)) @ '', '' @
                 pad_start 2 (show_nat (hour12 (hour t))) @ '':'' @
                 pad_start 2 (show_nat (minute t)) @ '' '' @ meridiem (hour t) \<and>
           1 \<le> hour12 (hour t) \<and> hour12 (hour t) \<le> 12 \<and>
           (meridiem (hour t) = ''AM'' \<or> meridiem (hour t) = ''PM'') \<and>
           has_meridiem out \<and> CHR 0xE0 \<notin> set out)) \<and>
     (language \<noteq> [] \<longrightarrow> format (dayjs env) Invalid_Date language = Inr ''Invalid Date'') \<and>
     format (dayjs env) date [] = Inl TypeError"
proof -
  let ?fr = "weekdays Fr (weekday t) @ '' '' @ pad_start 2 (show_nat (day t)) @ '' '' @
              months Fr (month t) @ '' '' @ pad_start 4 (show_int (year t)) @ '' '' @
              [CHR 0xE0] @ '' '' @ pad_start 2 (show_nat (hour t)) @ '':'' @
              pad_start 2 (show_nat (minute t))"
  have a: "CHR ''A'' \<notin> set ?fr"
    using fr_weekdays_no_capital[of "weekday t"] fr_months_no_capital[of "month t"]
      numbers_no_letter[of "CHR ''A''"]
    by simp
  have p: "CHR ''P'' \<notin> set ?fr"
    using fr_weekdays_no_capital[of "weekday t"] fr_months_no_capital[of "month t"]
      numbers_no_letter[of "CHR ''P''"]
    by simp
  have 1: "\<exists>out. format (dayjs env) (Local_Time t) ''fr'' = Inr out \<and> out = ?fr \<and>
        CHR 0xE0 \<in> set out \<and> \<not> has_meridiem out"
    using render_fr[OF assms, of t] no_capital_no_meridiem[OF a p] by simp
  have 2: "\<exists>out l. format (dayjs env) (Local_Time t) language = Inr out \<and>
           l = (case resolve env language of Some l \<Rightarrow> l | None \<Rightarrow> global_locale env) \<and>
           out = weekdays l (weekday t) @ '' '' @ pad_start 2 (show_nat (day t)) @ '' '' @
                 months l (month t) @ '' '' @ pad_start 4 (show_int (year t)) @ '', '' @
                 pad_start 2 (show_nat (hour12 (hour t))) @ '':'' @
                 pad_start 2 (show_nat (minute t)) @ '' '' @ meridiem (hour t) \<and>
           1 \<le> hour12 (hour t) \<and> hour12 (hour t) \<le> 12 \<and>
           (meridiem (hour t) = ''AM'' \<or> meridiem (hour t) = ''PM'') \<and>
           has_meridiem out \<and> CHR 0xE0 \<notin> set out"
    if n: "language \<noteq> ''fr''" "language \<noteq> []"
  proof -
    let ?l = "case resolve env language of Some l \<Rightarrow> l | None \<Rightarrow> global_locale env"
    let ?pre = "weekdays ?l (weekday t) @ '' '' @ pad_start 2 (show_nat (day t)) @ '' '' @
                 months ?l (month t) @ '' '' @ pad_start 4 (show_int (year t)) @ '', '' @
                 pad_start 2 (show_nat (hour12 (hour t))) @ '':'' @
                 pad_start 2 (show_nat (minute t)) @ '' ''"
    have e: "format (dayjs env) (Local_Time t) language = Inr (?pre @ meridiem (hour t))"
      using render_default[OF n, of env t] by simp
    have g: "CHR 0xE0 \<notin> set (?pre @ meridiem (hour t))"
      using weekdays_no_a_grave[of ?l "weekday t"] months_no_a_grave[of ?l "month t"]
        numbers_no_letter[of "CHR 0xE0"] meridiem_no_a_grave[of "hour t"]
      by simp
    have m: "meridiem (hour t) = ''AM'' \<or> meridiem (hour t) = ''PM''"
      by (simp add: meridiem_def)
    from e g m hour12_range[of "hour t"] ends_with_meridiem[of ?pre "hour t"]
    show ?thesis by simp
  qed
  have 3: "format (dayjs env) Invalid_Date language = Inr ''Invalid Date''" if "language \<noteq> []"
    using that by (simp add: format_def dayjs_def split: option.splits)
  have 4: "format (dayjs env) date [] = Inl TypeError"
    by (simp add: format_def dayjs_def)
  from 1 2 3 4 show ?thesis by blast
qed

text \<open>
  The theorem of C2 in the sample environment, at Monday 1 January 2024, 15:04, with the
  languages "fr" and "en".
\<close>

theorem format_renders_valid_dates_witness:
  "resolve sample_env ''fr'' = Some Fr \<and> ''en'' \<noteq> ''fr'' \<and> ''en'' \<noteq> [] \<and>
   format (dayjs sample_env) (Local_Time sample_moment) ''fr'' =
     Inr (''lundi 01 janvier 2024 '' @ [CHR 0xE0] @ '' 15:04'') \<and>
   format (dayjs sample_env) (Local_Time sample_moment) ''en'' =
     Inr ''Monday 01 January 2024, 03:04 PM''"
proof -
  have r: "resolve sample_env ''fr'' = Some Fr" "resolve sample_env ''en'' = Some En"
    by (simp_all add: sample_env_def to_lower_def)
  have n: "''en'' \<noteq> ''fr''" "''en'' \<noteq> []" by simp_all
  have v: "pad_start 2 (show_nat 1) = ''01''" "pad_start 4 (show_int 2024) = ''2024''"
    "pad_start 2 (show_nat 15) = ''15''" "pad_start 2 (show_nat 4) = ''04''"
    "pad_start 2 (show_nat (hour12 15)) = ''03''" "meridiem 15 = ''PM''"
    by (simp_all add: pad_start_def show_int_def show_nat_small show_nat_big digit_char_def
        hour12_def meridiem_def)
  show ?thesis
    using r n v format_renders_valid_dates[OF r(1), of sample_moment "''en''"]
    by (simp add: sample_moment_def)
qed

text \<open>
  Claim C9. The test of the branch is equality with the string "fr": every other language
  value, "FR", "Fr" and "fr-FR" among them, takes the default 12-hour pattern, and the
  language is handed unchanged to the library's locale call.
\<close>

theorem format_branch_is_exact_equality:
  assumes "language \<noteq> ''fr''"
  shows
    "format lib date language =
       dayjs_format lib (dayjs_locale lib (dayjs_make lib date) language) default_pattern \<and>
     format lib date ''FR'' =
       dayjs_format lib (dayjs_locale lib (dayjs_make lib date) ''FR'') default_pattern \<and>
     format lib date ''Fr'' =
       dayjs_format lib (dayjs_locale lib (dayjs_make lib date) ''Fr'') default_pattern \<and>
     format lib date ''fr-FR'' =
       dayjs_format lib (dayjs_locale lib (dayjs_make lib date) ''fr-FR'') default_pattern \<and>
     default_pattern \<noteq> fr_pattern"
proof -
  have "default_pattern \<noteq> fr_pattern"
    by (simp add: default_pattern_def fr_pattern_def)
  with assms show ?thesis by (simp add: format_def)
qed

text \<open>
  The theorem of C9 with the recording library, at the languages "fr-FR" and "FR".
\<close>

theorem format_branch_is_exact_equality_witness:
  "''fr-FR'' \<noteq> ''fr'' \<and>
   format recorder 0 ''fr-FR'' = ''fr-FR|dddd DD MMMM YYYY, hh:mm A'' \<and>
   format recorder 0 ''FR'' = ''FR|dddd DD MMMM YYYY, hh:mm A''"
proof -
  have n: "''fr-FR'' \<noteq> ''fr''" by simp
  show ?thesis
    using n format_branch_is_exact_equality[OF n, of recorder 0]
    by (simp add: recorder_def default_pattern_def)
qed

end
